theory Spec2Isabelle
  imports Complex_Main "HOL-Library.Word" "HOL-Library.Signed_Division" "HOL-Library.AList"
    "HOL-Library.Multiset"
begin

unbundle bit_operations_syntax

chapter \<open>The image proxy: embedding of the Go sources\<close>

text \<open>
  Go values are embedded as follows. A \<^verbatim>\<open>[]byte\<close> is a list of 8-bit words, a
  \<^verbatim>\<open>string\<close> is a \<^typ>\<open>string\<close>. Fixed-width integers whose wrap-around can be
  reached from the arguments of a function are words, or integers with the wrap-around
  written out. A run-time panic is a value of its own, returned on the left of a sum.
  Functions of the Go standard library and of third-party packages that the sources call
  (CRC-32, HMAC, URL parsing, image codecs) are parameters of the embedded functions.
\<close>

section \<open>Bytes, slices and panics\<close>

type_synonym byte = "8 word"
type_synonym bytes = "byte list"

datatype go_panic = SliceBoundsOutOfRange | IndexOutOfRange | NilPointerDereference

text \<open>
  \<^verbatim>\<open>data[lo:hi]\<close> on a slice. Go checks \<^verbatim>\<open>lo <= hi <= cap(data)\<close>, so the bytes
  between the length and the capacity of the backing array (\<open>spare\<close>) can be reached.
\<close>

definition slice_lo_hi :: "bytes \<Rightarrow> bytes \<Rightarrow> nat \<Rightarrow> nat \<Rightarrow> go_panic + bytes" where
  "slice_lo_hi data spare lo hi =
     (if hi \<le> length data + length spare \<and> lo \<le> hi
      then Inr (take (hi - lo) (drop lo (data @ spare)))
      else Inl SliceBoundsOutOfRange)"

text \<open>\<^verbatim>\<open>data[lo:]\<close>: the upper bound is the length, Go checks \<^verbatim>\<open>lo <= len(data)\<close>.\<close>

definition slice_lo :: "bytes \<Rightarrow> nat \<Rightarrow> go_panic + bytes" where
  "slice_lo data lo =
     (if lo \<le> length data then Inr (drop lo data) else Inl SliceBoundsOutOfRange)"

text \<open>\<^verbatim>\<open>binary.BigEndian.PutUint16\<close> and \<^verbatim>\<open>binary.BigEndian.Uint16\<close>.\<close>

definition PutUint16 :: "16 word \<Rightarrow> bytes" where
  "PutUint16 v = [ucast (drop_bit 8 v), ucast v]"

definition Uint16 :: "bytes \<Rightarrow> go_panic + 16 word" where
  "Uint16 b =
     (if 1 < length b then Inr (ucast (b ! 1) OR push_bit 8 (ucast (b ! 0)))
      else Inl IndexOutOfRange)"

section \<open>imageproxy/image\_utils.go: the origin-cache entry\<close>

record ImageWithMeta =
  Headers :: bytes
  Image :: bytes

text \<open>
  \<^verbatim>\<open>ImageWithMeta.Bytes\<close>: \<^verbatim>\<open>uint16(len(this.Headers))\<close> truncates the length to 16 bits.
\<close>

definition Bytes :: "ImageWithMeta \<Rightarrow> bytes" where
  "Bytes this = PutUint16 (of_nat (length (Headers this))) @ Headers this @ Image this"

text \<open>
  \<^verbatim>\<open>NewImageWithMetaFromCache\<close>. \<^verbatim>\<open>headLength\<close> is a \<^verbatim>\<open>uint16\<close>, so the sum
  \<^verbatim>\<open>2 + headLength\<close> is computed in 16 bits before it is used as a slice index.
\<close>

definition NewImageWithMetaFromCache :: "bytes \<Rightarrow> bytes \<Rightarrow> go_panic + ImageWithMeta" where
  "NewImageWithMetaFromCache data spare =
     (case slice_lo_hi data spare 0 2 of
        Inl p \<Rightarrow> Inl p
      | Inr b \<Rightarrow>
         (case Uint16 b of
            Inl p \<Rightarrow> Inl p
          | Inr headLength \<Rightarrow>
             (case slice_lo_hi data spare 2 (unat (2 + headLength)) of
                Inl p \<Rightarrow> Inl p
              | Inr h \<Rightarrow>
                 (case slice_lo data (unat (2 + headLength)) of
                    Inl p \<Rightarrow> Inl p
                  | Inr i \<Rightarrow> Inr \<lparr>Headers = h, Image = i\<rparr>))))"

section \<open>media\_utils: aligned expiry\<close>

text \<open>
  \<^verbatim>\<open>int64\<close> arithmetic on \<^typ>\<open>int\<close>: every sum, difference and product is reduced to the
  two's complement range. Go's \<^verbatim>\<open>/\<close> and \<^verbatim>\<open>%\<close> truncate towards zero
  (\<open>sdiv\<close>, \<open>smod\<close>).
\<close>

definition wrap64 :: "int \<Rightarrow> int" where
  "wrap64 x = (x + 2 ^ 63) mod 2 ^ 64 - 2 ^ 63"

text \<open>
  \<^verbatim>\<open>GenerateAlignedExpire\<close>. The clock reading \<^verbatim>\<open>time.Now().Unix()\<close> is the argument
  \<open>now\<close>, \<^verbatim>\<open>crc32.ChecksumIEEE\<close> is the argument \<open>ChecksumIEEE\<close>.
\<close>

definition GenerateAlignedExpire ::
  "(string \<Rightarrow> 32 word) \<Rightarrow> int \<Rightarrow> string \<Rightarrow> int \<Rightarrow> int" where
  "GenerateAlignedExpire ChecksumIEEE now key expiresSeconds0 =
     (let expiresSeconds = (if expiresSeconds0 < 3600 * 24 then 3600 * 24 else expiresSeconds0);
          offset = uint (ChecksumIEEE key) smod expiresSeconds;
          alignedExpire =
            wrap64 (wrap64 ((wrap64 (wrap64 (now + expiresSeconds) - 1) sdiv expiresSeconds)
                             * expiresSeconds) + offset)
      in if wrap64 (alignedExpire - now) < expiresSeconds
         then wrap64 (alignedExpire + expiresSeconds)
         else alignedExpire)"

section \<open>cache/diskv: the disk store and its in-memory hot cache\<close>

text \<open>
  The store keeps a map from keys to values in memory (\<^verbatim>\<open>cache\<close>) and counts its bytes in
  \<^verbatim>\<open>cacheSize\<close>. The Go map is an association list with distinct keys. The sizes are
  lengths of byte slices held in memory at the same time, so their sums stay far below
  \<open>2^64\<close> and the \<^verbatim>\<open>uint64\<close> counters are natural numbers; the counter is never less
  than the length that is taken off it (\<open>bounded\<close> below).

  The file system is not part of the state: what a system call returns is an argument of
  the operation that makes the call, so every behaviour of the disk is covered, also a
  file that another process deletes between two operations.
\<close>

text \<open>
  The field \<^verbatim>\<open>Transform\<close> of the options is named after its type, \<^verbatim>\<open>TransformFunction\<close>.
\<close>

record diskv_Options =
  BasePath :: string
  TransformFunction :: "(string \<Rightarrow> string list) option"
  CacheSizeMax :: nat
  PathPerm :: nat
  FilePerm :: nat

record Diskv = diskv_Options +
  cache :: "(string \<times> bytes) list"
  cacheSize :: nat

datatype diskv_panic =
  InvalidBasePath | FailedToMakeRoom | StillWontFit | CorruptDirstate | NilTransform

datatype diskv_error =
    errEmptyKey | errBadKey | ErrNotExist
  | StatError | OpenError | ReadError | CloseError
  | EnsurePathError | OpenFileError | IOCopyError | FileSyncError | FileCloseError
  | RemoveError | RemoveAllError
  | ValueTooLarge

definition defaultTransform :: "string \<Rightarrow> string list" where
  "defaultTransform s = []"

text \<open>\<^verbatim>\<open>New\<close> fills in the defaults and starts with an empty cache.\<close>

definition New :: "diskv_Options \<Rightarrow> Diskv" where
  "New opts =
     \<lparr>BasePath = (if BasePath opts = [] then ''diskv'' else BasePath opts),
      TransformFunction = (case TransformFunction opts of None \<Rightarrow> Some defaultTransform | Some t \<Rightarrow> Some t),
      CacheSizeMax = CacheSizeMax opts,
      PathPerm = (if PathPerm opts = 0 then 511 else PathPerm opts),
      FilePerm = (if FilePerm opts = 0 then 438 else FilePerm opts),
      cache = [],
      cacheSize = 0\<rparr>"

text \<open>
  \<^verbatim>\<open>for key, val := range d.cache\<close> visits the entries in an order the run time
  chooses. The choice is the argument \<open>picks\<close>: each entry is put at the position its pick
  names among the entries ordered so far, which reaches every order.
\<close>

fun range_order :: "nat list \<Rightarrow> 'a list \<Rightarrow> 'a list" where
  "range_order picks [] = []"
| "range_order [] (x # xs) = x # xs"
| "range_order (p # picks) (x # xs) =
     (let r = range_order picks xs; i = p mod (length r + 1) in take i r @ x # drop i r)"

definition uncacheWithLock :: "string \<Rightarrow> nat \<Rightarrow> Diskv \<Rightarrow> Diskv" where
  "uncacheWithLock key sz d =
     d\<lparr>cacheSize := cacheSize d - sz, cache := AList.delete key (cache d)\<rparr>"

definition bustCacheWithLock :: "string \<Rightarrow> Diskv \<Rightarrow> Diskv" where
  "bustCacheWithLock key d =
     (case map_of (cache d) key of
        Some val \<Rightarrow> uncacheWithLock key (length val) d
      | None \<Rightarrow> d)"

text \<open>The closure \<^verbatim>\<open>safe\<close> of \<^verbatim>\<open>ensureCacheSpaceWithLock\<close>.\<close>

definition safe :: "Diskv \<Rightarrow> nat \<Rightarrow> bool" where
  "safe d valueSize = (cacheSize d + valueSize \<le> CacheSizeMax d)"

text \<open>The eviction loop over the entries in the order of the \<^verbatim>\<open>range\<close>.\<close>

fun evict_loop :: "(string \<times> bytes) list \<Rightarrow> nat \<Rightarrow> Diskv \<Rightarrow> Diskv" where
  "evict_loop [] valueSize d = d"
| "evict_loop ((key, val) # rest) valueSize d =
     (if safe d valueSize then d
      else evict_loop rest valueSize (uncacheWithLock key (length val) d))"

definition ensureCacheSpaceWithLock ::
  "nat list \<Rightarrow> nat \<Rightarrow> Diskv \<Rightarrow> diskv_panic + (diskv_error option \<times> Diskv)" where
  "ensureCacheSpaceWithLock picks valueSize d =
     (if valueSize > CacheSizeMax d then Inr (Some ValueTooLarge, d)
      else let d' = evict_loop (range_order picks (cache d)) valueSize d
           in if \<not> safe d' valueSize then Inl StillWontFit else Inr (None, d'))"

definition cacheWithLock ::
  "nat list \<Rightarrow> string \<Rightarrow> bytes \<Rightarrow> Diskv \<Rightarrow> diskv_panic + (diskv_error option \<times> Diskv)" where
  "cacheWithLock picks key val d =
     (let valueSize = length val in
      case ensureCacheSpaceWithLock picks valueSize d of
        Inl p \<Rightarrow> Inl p
      | Inr (Some err, d') \<Rightarrow> Inr (Some err, d')
      | Inr (None, d') \<Rightarrow>
          if cacheSize d' + valueSize > CacheSizeMax d' then Inl FailedToMakeRoom
          else Inr (None, d'\<lparr>cache := AList.update key val (cache d'),
                             cacheSize := cacheSize d' + valueSize\<rparr>))"

text \<open>
  \<^verbatim>\<open>ReadStream\<close> holds the read lock: it answers from the cache or opens the file
  (\<^verbatim>\<open>readWithRLock\<close>), and leaves the store as it is. \<open>open_env\<close> is what the disk did:
  \<^verbatim>\<open>os.Stat\<close> failed, the name is a directory, \<^verbatim>\<open>os.Open\<close> failed, or the file is open.
  The reader that comes back is a buffer over the cached value, a siphon on the file when
  the cache is enabled, or a plain reader of the file.
\<close>

datatype open_env = StatFails | StatIsDir | OpenFails | Opened

datatype reader = Buffer bytes | Siphon string | ClosingReader

definition readWithRLock :: "string \<Rightarrow> open_env \<Rightarrow> Diskv \<Rightarrow> diskv_error + reader" where
  "readWithRLock key env d =
     (case env of
        StatFails \<Rightarrow> Inl StatError
      | StatIsDir \<Rightarrow> Inl ErrNotExist
      | OpenFails \<Rightarrow> Inl OpenError
      | Opened \<Rightarrow> Inr (if CacheSizeMax d > 0 then Siphon key else ClosingReader))"

definition ReadStream :: "string \<Rightarrow> open_env \<Rightarrow> Diskv \<Rightarrow> diskv_error + reader" where
  "ReadStream key env d =
     (case map_of (cache d) key of
        Some val \<Rightarrow> Inr (Buffer val)
      | None \<Rightarrow> readWithRLock key env d)"

text \<open>
  \<^verbatim>\<open>cacheWithoutLock\<close> takes the write lock and calls \<^verbatim>\<open>cacheWithLock\<close>. The siphon
  calls it when a read of the file meets the end, on the bytes it has buffered, and ignores
  the error (\<open>siphon_EOF\<close>). The read lock of \<^verbatim>\<open>ReadStream\<close> was released long before:
  this is a critical section of its own.
\<close>

definition cacheWithoutLock ::
  "nat list \<Rightarrow> string \<Rightarrow> bytes \<Rightarrow> Diskv \<Rightarrow> diskv_panic + (diskv_error option \<times> Diskv)" where
  "cacheWithoutLock picks key val d = cacheWithLock picks key val d"

definition siphon_EOF :: "nat list \<Rightarrow> string \<Rightarrow> bytes \<Rightarrow> Diskv \<Rightarrow> diskv_panic + Diskv" where
  "siphon_EOF picks key buf d =
     (case cacheWithoutLock picks key buf d of
        Inl p \<Rightarrow> Inl p
      | Inr (_, d') \<Rightarrow> Inr d')"

text \<open>
  \<^verbatim>\<open>Read\<close> is \<^verbatim>\<open>ReadStream\<close> and then \<^verbatim>\<open>ioutil.ReadAll\<close> on the reader. \<open>ReadAll\<close> is
  what the caller gets: \<open>drain_env\<close> says whether a read of the file failed after some
  bytes, or the file was read to its end and then closed (or not). On a siphon, the end of
  the file is also the step \<open>siphon_EOF\<close> on the store.
\<close>

datatype drain_env = ReadFails bytes | ReadEOF bytes bool

definition ReadAll :: "reader \<Rightarrow> drain_env \<Rightarrow> bytes \<times> diskv_error option" where
  "ReadAll rc env =
     (case rc of
        Buffer val \<Rightarrow> (val, None)
      | _ \<Rightarrow>
          (case env of
             ReadFails got \<Rightarrow> (got, Some ReadError)
           | ReadEOF content close_ok \<Rightarrow>
               (content, if close_ok then None else Some CloseError)))"

text \<open>
  \<^verbatim>\<open>WriteStream\<close> with \<^verbatim>\<open>writeStreamWithLock\<close>: the cache entry is dropped only when
  every step on the file succeeded.
\<close>

datatype write_env =
  MkdirAllFails | OpenFileFails | CopyFails | SyncFails | FileCloseFails | WriteDone

definition WriteStream ::
  "string \<Rightarrow> bytes \<Rightarrow> bool \<Rightarrow> write_env \<Rightarrow> Diskv \<Rightarrow> diskv_error option \<times> Diskv" where
  "WriteStream key r sync env d =
     (if length key \<le> 0 then (Some errEmptyKey, d)
      else case env of
        MkdirAllFails \<Rightarrow> (Some EnsurePathError, d)
      | OpenFileFails \<Rightarrow> (Some OpenFileError, d)
      | CopyFails \<Rightarrow> (Some IOCopyError, d)
      | SyncFails \<Rightarrow> (if sync then (Some FileSyncError, d) else (None, bustCacheWithLock key d))
      | FileCloseFails \<Rightarrow> (Some FileCloseError, d)
      | WriteDone \<Rightarrow> (None, bustCacheWithLock key d))"

text \<open>
  \<^verbatim>\<open>Erase\<close>: the cache entry goes first. \<^verbatim>\<open>pruneDirsWithLock\<close> runs after the file was
  removed; its loop has no iteration when the key has no directories, its errors are
  ignored, and it panics on a path component that is not a directory (\<open>ERemoved False\<close>).
\<close>

datatype erase_env = EStatFails | EIsDir | ERemoveFails | ERemoved bool

definition Erase ::
  "string \<Rightarrow> erase_env \<Rightarrow> Diskv \<Rightarrow> diskv_panic + (diskv_error option \<times> Diskv)" where
  "Erase key env d =
     (let d' = bustCacheWithLock key d in
      case env of
        EStatFails \<Rightarrow> Inr (Some StatError, d')
      | EIsDir \<Rightarrow> Inr (Some errBadKey, d')
      | ERemoveFails \<Rightarrow> Inr (Some RemoveError, d')
      | ERemoved dirs_ok \<Rightarrow>
          (case TransformFunction d' of
             None \<Rightarrow> Inl NilTransform
           | Some t \<Rightarrow>
               if t key \<noteq> [] \<and> \<not> dirs_ok then Inl CorruptDirstate else Inr (None, d')))"

definition EraseAll :: "bool \<Rightarrow> Diskv \<Rightarrow> diskv_panic + (diskv_error option \<times> Diskv)" where
  "EraseAll removed d =
     (if length (BasePath d) \<le> 0 then Inl InvalidBasePath
      else Inr (if removed then None else Some RemoveAllError,
                d\<lparr>cache := [], cacheSize := 0\<rparr>))"

definition Has :: "string \<Rightarrow> bool \<Rightarrow> Diskv \<Rightarrow> bool \<times> Diskv" where
  "Has key is_file d =
     (case map_of (cache d) key of
        Some _ \<Rightarrow> (True, d)
      | None \<Rightarrow> (is_file, d))"

text \<open>
  A run of the store is a sequence of critical sections, each under the lock of the store;
  a panic ends the run. The goroutines that serve requests share one store, so between
  the \<^verbatim>\<open>ReadStream\<close> of a \<^verbatim>\<open>Read\<close> and the end of file of its siphon the steps of other
  goroutines may come. The state of a run is the store and the keys of the siphons that
  are open, oldest first. A siphon step names its siphon by position; a position that is
  not open leaves the state as it is.
\<close>

datatype diskv_step =
    StepReadStream string open_env
  | StepSiphonEOF nat bytes "nat list"
  | StepSiphonDropped nat
  | StepWriteStream string bytes bool write_env
  | StepErase string erase_env
  | StepEraseAll bool
  | StepHas string bool

fun exec_step :: "diskv_step \<Rightarrow> Diskv \<times> string list \<Rightarrow> diskv_panic + Diskv \<times> string list" where
  "exec_step (StepReadStream key env) (d, siphons) =
     Inr (d, case ReadStream key env d of
               Inr (Siphon k) \<Rightarrow> siphons @ [k]
             | _ \<Rightarrow> siphons)"
| "exec_step (StepSiphonEOF n buf picks) (d, siphons) =
     (if n < length siphons
      then map_sum id (\<lambda>d'. (d', take n siphons @ drop (Suc n) siphons))
             (siphon_EOF picks (siphons ! n) buf d)
      else Inr (d, siphons))"
| "exec_step (StepSiphonDropped n) (d, siphons) =
     Inr (d, take n siphons @ drop (Suc n) siphons)"
| "exec_step (StepWriteStream key r sync env) (d, siphons) =
     Inr (snd (WriteStream key r sync env d), siphons)"
| "exec_step (StepErase key env) (d, siphons) =
     map_sum id (\<lambda>r. (snd r, siphons)) (Erase key env d)"
| "exec_step (StepEraseAll removed) (d, siphons) =
     map_sum id (\<lambda>r. (snd r, siphons)) (EraseAll removed d)"
| "exec_step (StepHas key is_file) (d, siphons) = Inr (snd (Has key is_file d), siphons)"

fun run_steps ::
  "diskv_step list \<Rightarrow> Diskv \<times> string list \<Rightarrow> diskv_panic + Diskv \<times> string list" where
  "run_steps [] s = Inr s"
| "run_steps (x # xs) s = (case exec_step x s of Inl p \<Rightarrow> Inl p | Inr s' \<Rightarrow> run_steps xs s')"

text \<open>
  One goroutine alone runs whole operations one after the other: the steps of a
  \<^verbatim>\<open>Read\<close> are then next to each other.
\<close>

datatype diskv_op =
    OpRead string open_env drain_env "nat list"
  | OpWriteStream string bytes bool write_env
  | OpErase string erase_env
  | OpEraseAll bool
  | OpHas string bool

fun steps_of :: "diskv_op \<Rightarrow> diskv_step list" where
  "steps_of (OpRead key oenv denv picks) =
     [StepReadStream key oenv,
      (case denv of
         ReadFails got \<Rightarrow> StepSiphonDropped 0
       | ReadEOF content close_ok \<Rightarrow> StepSiphonEOF 0 content picks)]"
| "steps_of (OpWriteStream key r sync env) = [StepWriteStream key r sync env]"
| "steps_of (OpErase key env) = [StepErase key env]"
| "steps_of (OpEraseAll removed) = [StepEraseAll removed]"
| "steps_of (OpHas key is_file) = [StepHas key is_file]"

definition run_ops :: "diskv_op list \<Rightarrow> Diskv \<Rightarrow> diskv_panic + Diskv \<times> string list" where
  "run_ops ops d = run_steps (concat (map steps_of ops)) (d, [])"

text \<open>The bytes held by the cache map, and the accounting invariant.\<close>

definition cached_bytes :: "(string \<times> bytes) list \<Rightarrow> nat" where
  "cached_bytes al = sum_list (map (\<lambda>kv. length (snd kv)) al)"

definition accounted :: "Diskv \<Rightarrow> bool" where
  "accounted d \<longleftrightarrow>
     distinct (map fst (cache d)) \<and> cacheSize d = cached_bytes (cache d)
     \<and> cacheSize d \<le> CacheSizeMax d"

definition well_formed :: "Diskv \<Rightarrow> bool" where
  "well_formed d \<longleftrightarrow> accounted d \<and> BasePath d \<noteq> [] \<and> TransformFunction d \<noteq> None"

text \<open>
  What every run keeps: the counter is at least the bytes held and at most the maximum.
\<close>

definition bounded :: "Diskv \<Rightarrow> bool" where
  "bounded d \<longleftrightarrow>
     distinct (map fst (cache d)) \<and> cached_bytes (cache d) \<le> cacheSize d
     \<and> cacheSize d \<le> CacheSizeMax d \<and> BasePath d \<noteq> [] \<and> TransformFunction d \<noteq> None"

text \<open>A store with room for four bytes, for running the steps.\<close>

definition demo_store :: Diskv where
  "demo_store =
     New \<lparr>BasePath = [], TransformFunction = None, CacheSizeMax = 4, PathPerm = 0, FilePerm = 0\<rparr>"

definition observe :: "diskv_panic + Diskv \<times> string list \<Rightarrow> diskv_panic + (string \<times> bytes) list \<times> nat \<times> nat" where
  "observe r = map_sum id (\<lambda>s. (cache (fst s), cacheSize (fst s), cached_bytes (cache (fst s)))) r"

section \<open>The packages strings and strconv\<close>

text \<open>
  The functions of \<^verbatim>\<open>strings\<close> that the sources call. Every separator in the sources is a
  single character: \<open>Split1\<close> is \<^verbatim>\<open>strings.Split\<close> and \<open>SplitN2\<close> is
  \<^verbatim>\<open>strings.SplitN(s, sep, 2)\<close> for such a separator.
\<close>

definition HasPrefix :: "string \<Rightarrow> string \<Rightarrow> bool" where
  "HasPrefix s p = (take (length p) s = p)"

definition HasSuffix :: "string \<Rightarrow> string \<Rightarrow> bool" where
  "HasSuffix s x = (length x \<le> length s \<and> drop (length s - length x) s = x)"

definition TrimPrefix :: "string \<Rightarrow> string \<Rightarrow> string" where
  "TrimPrefix s p = (if HasPrefix s p then drop (length p) s else s)"

fun Split1 :: "char \<Rightarrow> string \<Rightarrow> string list" where
  "Split1 sep [] = [[]]"
| "Split1 sep (c # cs) =
     (if c = sep then [] # Split1 sep cs
      else case Split1 sep cs of
             [] \<Rightarrow> [[c]]
           | part # parts \<Rightarrow> (c # part) # parts)"

definition SplitN2 :: "char \<Rightarrow> string \<Rightarrow> string list" where
  "SplitN2 sep s =
     (if sep \<in> set s then [takeWhile (\<lambda>c. c \<noteq> sep) s, tl (dropWhile (\<lambda>c. c \<noteq> sep) s)]
      else [s])"

text \<open>
  \<^verbatim>\<open>strconv.Atoi\<close>: an optional sign and at least one decimal digit; the value and
  whether there was no error. A syntax error gives 0, a value out of the range of
  \<^verbatim>\<open>int\<close> gives the nearest bound, both with an error.
\<close>

definition is_digit :: "char \<Rightarrow> bool" where
  "is_digit c \<longleftrightarrow> 48 \<le> (of_char c :: int) \<and> (of_char c :: int) \<le> 57"

definition digits_value :: "string \<Rightarrow> int" where
  "digits_value ds = foldl (\<lambda>acc c. 10 * acc + (of_char c - 48)) 0 ds"

definition Atoi :: "string \<Rightarrow> 64 word \<times> bool" where
  "Atoi s =
     (let neg = (s \<noteq> [] \<and> hd s = CHR ''-'');
          ds = (if s \<noteq> [] \<and> (hd s = CHR ''-'' \<or> hd s = CHR ''+'') then tl s else s)
      in if ds = [] \<or> \<not> list_all is_digit ds then (0, False)
         else let n = digits_value ds in
           if neg then (if n > 9223372036854775808 then (- 9223372036854775808, False)
                        else (of_int (- n), True))
           else (if n \<ge> 9223372036854775808 then (9223372036854775807, False)
                 else (of_int n, True)))"

text \<open>The verb \<^verbatim>\<open>%d\<close> of \<^verbatim>\<open>fmt\<close> on an \<^verbatim>\<open>int\<close>.\<close>

function decimal :: "int \<Rightarrow> string" where
  "decimal n =
     (if n < 10 then [char_of (48 + n)] else decimal (n div 10) @ [char_of (48 + n mod 10)])"
  by pat_completeness auto
termination
  by (relation "measure nat") auto

declare decimal.simps [simp del]

definition fmt_d :: "64 word \<Rightarrow> string" where
  "fmt_d w = (if sint w < 0 then CHR ''-'' # decimal (- sint w) else decimal (sint w))"

section \<open>float64 values\<close>

text \<open>
  A \<^verbatim>\<open>float64\<close> is a finite value (a rational; \<open>Finite 0\<close> is the positive zero), the
  negative zero, an infinity or a NaN. \<open>f64_lt\<close> is Go's \<^verbatim>\<open><\<close>: false as soon as a NaN
  takes part, and the two zeros are equal.
\<close>

datatype float64 = Finite rat | NegZero | PosInf | NegInf | NaN

fun f64_lt :: "float64 \<Rightarrow> float64 \<Rightarrow> bool" where
  "f64_lt NaN y = False"
| "f64_lt x NaN = False"
| "f64_lt x NegInf = False"
| "f64_lt NegInf y = True"
| "f64_lt PosInf y = False"
| "f64_lt x PosInf = True"
| "f64_lt NegZero NegZero = False"
| "f64_lt NegZero (Finite b) = (0 < b)"
| "f64_lt (Finite a) NegZero = (a < 0)"
| "f64_lt (Finite a) (Finite b) = (a < b)"

text \<open>\<^verbatim>\<open>x != 0\<close>: true for a NaN, false for both zeros.\<close>

definition f64_ne_zero :: "float64 \<Rightarrow> bool" where
  "f64_ne_zero x = (x \<noteq> Finite 0 \<and> x \<noteq> NegZero)"

text \<open>
  The arithmetic of the hardware is a parameter: \<open>fl\<close> rounds the exact result of an
  operation on finite values to the \<^verbatim>\<open>float64\<close> that Go computes, and \<open>oob\<close> is the
  result of the conversion \<^verbatim>\<open>int(x)\<close> where \<open>x\<close> is not finite or its integer part does
  not fit 64 bits (Go leaves that result to the implementation).
\<close>

record f64_arith =
  fl :: "rat \<Rightarrow> rat"
  oob :: "float64 \<Rightarrow> int"

definition go_trunc :: "rat \<Rightarrow> int" where
  "go_trunc r = (if 0 \<le> r then \<lfloor>r\<rfloor> else \<lceil>r\<rceil>)"

definition f64_to_int :: "f64_arith \<Rightarrow> float64 \<Rightarrow> int" where
  "f64_to_int F x =
     (case x of
        Finite r \<Rightarrow>
          if - (2 ^ 63) \<le> go_trunc r \<and> go_trunc r < 2 ^ 63 then go_trunc r else oob F x
      | NegZero \<Rightarrow> 0
      | _ \<Rightarrow> oob F x)"

text \<open>
  What the proofs ask of the rounding: a relative error of at most \<open>2^-53\<close> on the
  values between \<open>2^-100\<close> and \<open>2^100\<close>. IEEE 754 binary64 rounding to nearest has it
  (on the wider range of all normal numbers).
\<close>

definition binary64_rounding :: "(rat \<Rightarrow> rat) \<Rightarrow> bool" where
  "binary64_rounding f \<longleftrightarrow>
     (\<forall>x. 1 / 2 ^ 100 \<le> x \<and> x \<le> 2 ^ 100 \<longrightarrow>
          x * (1 - 1 / 2 ^ 53) \<le> f x \<and> f x \<le> x * (1 + 1 / 2 ^ 53))"

section \<open>imageproxy: the transformation options\<close>

text \<open>Go's \<^verbatim>\<open>int\<close> is taken to be 64 bits wide.\<close>

record Options =
  Width :: float64
  Height :: float64
  Fit :: bool
  Rotate :: "64 word"
  FlipVertical :: bool
  FlipHorizontal :: bool
  Quality :: "64 word"
  Format :: string

definition transform :: "Options \<Rightarrow> bool" where
  "transform opt \<longleftrightarrow>
     f64_ne_zero (Width opt) \<or> f64_ne_zero (Height opt) \<or> Rotate opt \<noteq> 0
     \<or> FlipHorizontal opt \<or> FlipVertical opt"

definition emptyOptions :: Options where
  "emptyOptions =
     \<lparr>Width = Finite 0, Height = Finite 0, Fit = False, Rotate = 0, FlipVertical = False,
      FlipHorizontal = False, Quality = 0, Format = []\<rparr>"

text \<open>
  The verb \<^verbatim>\<open>%v\<close> on a \<^verbatim>\<open>float64\<close> and \<^verbatim>\<open>strconv.ParseFloat(s, 64)\<close> (the value and
  whether there was no error) are parameters of the functions that call them. Go prints
  the shortest decimal that reads back as the same value; \<open>text_roundtrip\<close> says that of
  one value, together with what the characters of the printed text can be: digits, a sign,
  a point, an exponent, or \<^verbatim>\<open>NaN\<close>, \<^verbatim>\<open>+Inf\<close>, \<^verbatim>\<open>-Inf\<close>.
\<close>

definition text_roundtrip ::
  "(float64 \<Rightarrow> string) \<Rightarrow> (string \<Rightarrow> float64 \<times> bool) \<Rightarrow> float64 \<Rightarrow> bool" where
  "text_roundtrip fmt_v ParseFloat x \<longleftrightarrow>
     ParseFloat (fmt_v x) = (x, True) \<and> fmt_v x \<noteq> []
     \<and> CHR '','' \<notin> set (fmt_v x) \<and> CHR ''x'' \<notin> set (fmt_v x)
     \<and> hd (fmt_v x) \<notin> {CHR ''r'', CHR ''q'', CHR ''f''}"

text \<open>Go's \<^verbatim>\<open>==\<close> on \<^verbatim>\<open>float64\<close> values and on \<^verbatim>\<open>Options\<close> values.\<close>

definition f64_eq :: "float64 \<Rightarrow> float64 \<Rightarrow> bool" where
  "f64_eq x y \<longleftrightarrow>
     x \<noteq> NaN \<and> y \<noteq> NaN
     \<and> (x = y \<or> (x = NegZero \<and> y = Finite 0) \<or> (x = Finite 0 \<and> y = NegZero))"

definition Options_equal :: "Options \<Rightarrow> Options \<Rightarrow> bool" where
  "Options_equal a b \<longleftrightarrow>
     f64_eq (Width a) (Width b) \<and> f64_eq (Height a) (Height b) \<and> Fit a = Fit b
     \<and> Rotate a = Rotate b \<and> FlipVertical a = FlipVertical b
     \<and> FlipHorizontal a = FlipHorizontal b \<and> Quality a = Quality b \<and> Format a = Format b"

definition optFit :: string where "optFit = ''fit''"
definition optFlipVertical :: string where "optFlipVertical = ''fv''"
definition optFlipHorizontal :: string where "optFlipHorizontal = ''fh''"
definition optRotatePrefix :: string where "optRotatePrefix = ''r''"
definition optQualityPrefix :: string where "optQualityPrefix = ''q''"
definition optFormatPrefix :: string where "optFormatPrefix = ''f''"
definition optSizeDelimiter :: char where "optSizeDelimiter = CHR ''x''"
definition optSizeDelimiter2 :: char where "optSizeDelimiter2 = CHR ''*''"

text \<open>\<^verbatim>\<open>Options.String\<close>: the buffer after each \<^verbatim>\<open>Fprintf\<close>, then the test for "0x0".\<close>

definition String :: "(float64 \<Rightarrow> string) \<Rightarrow> Options \<Rightarrow> string" where
  "String fmt_v opt =
     (let result =
            fmt_v (Width opt) @ [optSizeDelimiter] @ fmt_v (Height opt)
            @ (if Fit opt then '','' @ optFit else [])
            @ (if Rotate opt \<noteq> 0 then '','' @ optRotatePrefix @ fmt_d (Rotate opt) else [])
            @ (if FlipVertical opt then '','' @ optFlipVertical else [])
            @ (if FlipHorizontal opt then '','' @ optFlipHorizontal else [])
            @ (if Quality opt \<noteq> 0 then '','' @ optQualityPrefix @ fmt_d (Quality opt) else [])
            @ (if length (Format opt) > 0 then '','' @ optFormatPrefix @ Format opt else [])
      in if result = ''0x0'' then [] else result)"

text \<open>The parts that \<open>String\<close> writes after the size, each after a comma.\<close>

definition flag_tokens :: "Options \<Rightarrow> string list" where
  "flag_tokens opt =
     (if Fit opt then [''fit''] else [])
     @ (if Rotate opt \<noteq> 0 then [CHR ''r'' # fmt_d (Rotate opt)] else [])
     @ (if FlipVertical opt then [''fv''] else [])
     @ (if FlipHorizontal opt then [''fh''] else [])
     @ (if Quality opt \<noteq> 0 then [CHR ''q'' # fmt_d (Quality opt)] else [])
     @ (if length (Format opt) > 0 then [CHR ''f'' # Format opt] else [])"

text \<open>
  \<^verbatim>\<open>ParseOptions\<close>: one pass of the \<^verbatim>\<open>switch\<close> for each part of the string, in order. The
  errors of \<^verbatim>\<open>Atoi\<close> and of \<^verbatim>\<open>ParseFloat\<close> on the two sides of a size are dropped, the
  value is stored all the same.
\<close>

definition parse_size ::
  "(string \<Rightarrow> float64 \<times> bool) \<Rightarrow> char \<Rightarrow> Options \<Rightarrow> string \<Rightarrow> Options" where
  "parse_size ParseFloat sep options opt =
     (let sizes = SplitN2 sep opt;
          w = sizes ! 0;
          h = sizes ! 1;
          options1 = (if w \<noteq> [] then options\<lparr>Width := fst (ParseFloat w)\<rparr> else options)
      in if h \<noteq> [] then options1\<lparr>Height := fst (ParseFloat h)\<rparr> else options1)"

definition parse_option ::
  "(string \<Rightarrow> float64 \<times> bool) \<Rightarrow> Options \<Rightarrow> string \<Rightarrow> Options" where
  "parse_option ParseFloat options opt =
     (if length opt = 0 then options
      else if opt = optFit then options\<lparr>Fit := True\<rparr>
      else if opt = optFlipVertical then options\<lparr>FlipVertical := True\<rparr>
      else if opt = optFlipHorizontal then options\<lparr>FlipHorizontal := True\<rparr>
      else if HasPrefix opt optRotatePrefix
        then options\<lparr>Rotate := fst (Atoi (TrimPrefix opt optRotatePrefix))\<rparr>
      else if HasPrefix opt optQualityPrefix
        then options\<lparr>Quality := fst (Atoi (TrimPrefix opt optQualityPrefix))\<rparr>
      else if HasPrefix opt optFormatPrefix
        then options\<lparr>Format := TrimPrefix opt optFormatPrefix\<rparr>
      else if optSizeDelimiter \<in> set opt then parse_size ParseFloat optSizeDelimiter options opt
      else if optSizeDelimiter2 \<in> set opt then parse_size ParseFloat optSizeDelimiter2 options opt
      else (case ParseFloat opt of
              (sz, ok) \<Rightarrow> if ok then options\<lparr>Width := sz, Height := sz\<rparr> else options))"

definition ParseOptions :: "(string \<Rightarrow> float64 \<times> bool) \<Rightarrow> string \<Rightarrow> bool \<Rightarrow> Options" where
  "ParseOptions ParseFloat str useWebp =
     (let options = foldl (parse_option ParseFloat) emptyOptions (Split1 CHR '','' str)
      in if useWebp \<and> length (Format options) = 0 then options\<lparr>Format := ''webp''\<rparr>
         else options)"

text \<open>
  A stand-in for \<^verbatim>\<open>%v\<close> and \<^verbatim>\<open>ParseFloat\<close>, for running the functions on concrete
  inputs. It prints and reads what Go prints and reads on the integers of less than seven
  digits, on the negative zero, the infinities and NaN, and is not meant for other values.
\<close>

definition small_fmt_v :: "float64 \<Rightarrow> string" where
  "small_fmt_v x =
     (case x of
        Finite r \<Rightarrow>
          if r = of_int \<lfloor>r\<rfloor> \<and> \<bar>r\<bar> < 1000000
          then (if r < 0 then CHR ''-'' # decimal (- \<lfloor>r\<rfloor>) else decimal \<lfloor>r\<rfloor>)
          else ''?''
      | NegZero \<Rightarrow> ''-0''
      | PosInf \<Rightarrow> ''+Inf''
      | NegInf \<Rightarrow> ''-Inf''
      | NaN \<Rightarrow> ''NaN'')"

definition small_ParseFloat :: "string \<Rightarrow> float64 \<times> bool" where
  "small_ParseFloat s =
     (if s = ''NaN'' then (NaN, True)
      else if s = ''+Inf'' \<or> s = ''Inf'' then (PosInf, True)
      else if s = ''-Inf'' then (NegInf, True)
      else let neg = (s \<noteq> [] \<and> hd s = CHR ''-'');
               ds = (if s \<noteq> [] \<and> (hd s = CHR ''-'' \<or> hd s = CHR ''+'') then tl s else s)
           in if ds = [] \<or> \<not> list_all is_digit ds then (Finite 0, False)
              else if neg then (if digits_value ds = 0 then NegZero
                                else Finite (- of_int (digits_value ds)), True)
              else (Finite (of_int (digits_value ds)), True))"

section \<open>imageproxy/transform.go and the GIF frame loop\<close>

definition ImageFormatPng :: string where "ImageFormatPng = ''png''"
definition ImageFormatWebp :: string where "ImageFormatWebp = ''webp''"
definition ImageFormatJpeg :: string where "ImageFormatJpeg = ''jpeg''"
definition ImageFormatJpg :: string where "ImageFormatJpg = ''jpg''"
definition ImageFormatGif :: string where "ImageFormatGif = ''gif''"

definition defaultQuality :: "64 word" where
  "defaultQuality = 80"

text \<open>
  Images are values of a type \<open>'img\<close>, the paletted frames of a GIF of a type \<open>'frame\<close>.
  The decoders and encoders of the standard library and the operations of the
  \<^verbatim>\<open>imaging\<close> package are the fields of \<open>image_lib\<close>. The resample filter is always
  Lanczos and is left out.
\<close>

record rectangle =
  MinX :: int
  MinY :: int
  MaxX :: int
  MaxY :: int

record 'frame GIF =
  gif_Image :: "'frame list"
  gif_Disposal :: "byte list"
  gif_Config_Width :: int
  gif_Config_Height :: int

record ('img, 'frame) image_lib =
  image_Decode :: "bytes \<Rightarrow> string + ('img \<times> string)"
  Bounds :: "'img \<Rightarrow> rectangle"
  imaging_Fit :: "'img \<Rightarrow> int \<Rightarrow> int \<Rightarrow> 'img"
  imaging_Resize :: "'img \<Rightarrow> int \<Rightarrow> int \<Rightarrow> 'img"
  imaging_Thumbnail :: "'img \<Rightarrow> int \<Rightarrow> int \<Rightarrow> 'img"
  imaging_FlipV :: "'img \<Rightarrow> 'img"
  imaging_FlipH :: "'img \<Rightarrow> 'img"
  imaging_Rotate90 :: "'img \<Rightarrow> 'img"
  imaging_Rotate180 :: "'img \<Rightarrow> 'img"
  imaging_Rotate270 :: "'img \<Rightarrow> 'img"
  webp_Encode :: "'img \<Rightarrow> 64 word \<Rightarrow> string + bytes"
  jpeg_Encode :: "'img \<Rightarrow> 64 word \<Rightarrow> string + bytes"
  png_Encode :: "'img \<Rightarrow> string + bytes"
  gif_DecodeAll :: "bytes \<Rightarrow> string + 'frame GIF"
  gif_EncodeAll :: "'frame GIF \<Rightarrow> string + bytes"
  frame_Bounds :: "'frame \<Rightarrow> rectangle"
  image_NewRGBA :: "rectangle \<Rightarrow> 'img"
  draw_Over :: "'img \<Rightarrow> rectangle \<Rightarrow> 'frame \<Rightarrow> 'img"
  imageToPaletted :: "'img \<Rightarrow> 'frame \<Rightarrow> 'frame"

text \<open>The methods \<^verbatim>\<open>Dx\<close> and \<^verbatim>\<open>Dy\<close> of a rectangle.\<close>

definition Dx :: "rectangle \<Rightarrow> int" where
  "Dx r = MaxX r - MinX r"

definition Dy :: "rectangle \<Rightarrow> int" where
  "Dy r = MaxY r - MinY r"

text \<open>
  \<^verbatim>\<open>resizeParams\<close> starts with the same chain of tests for the width and for the height:
  a value between 0 and 1 is a fraction of the source, a negative value is 0, any other
  value is converted to \<^verbatim>\<open>int\<close>.
\<close>

definition percent_or_pixels :: "f64_arith \<Rightarrow> int \<Rightarrow> float64 \<Rightarrow> int" where
  "percent_or_pixels F imgDim v =
     (if f64_lt (Finite 0) v \<and> f64_lt v (Finite 1)
      then (case v of
              Finite r \<Rightarrow> f64_to_int F (Finite (fl F (fl F (of_int imgDim) * r)))
            | _ \<Rightarrow> 0)
      else if f64_lt v (Finite 0) then 0
      else f64_to_int F v)"

definition resizeParams :: "f64_arith \<Rightarrow> rectangle \<Rightarrow> Options \<Rightarrow> int \<times> int \<times> bool" where
  "resizeParams F bounds opt =
     (let imgW = MaxX bounds - MinX bounds;
          imgH = MaxY bounds - MinY bounds;
          w0 = percent_or_pixels F imgW (Width opt);
          h0 = percent_or_pixels F imgH (Height opt);
          (w, h) =
            (if w0 > 0 \<and> h0 > 0 \<and> \<not> Fit opt \<and> (w0 > imgW \<or> h0 > imgH)
             then
               (let scaleX = fl F (fl F (of_int imgW) / fl F (of_int w0));
                    scaleY = fl F (fl F (of_int imgH) / fl F (of_int h0));
                    minScale = min scaleX scaleY
                in (f64_to_int F (Finite (fl F (fl F (of_int w0) * minScale))),
                    f64_to_int F (Finite (fl F (fl F (of_int h0) * minScale)))))
             else (if w0 > imgW then imgW else w0, if h0 > imgH then imgH else h0))
      in if (w = imgW \<or> w = 0) \<and> (h = imgH \<or> h = 0) then (0, 0, False) else (w, h, True))"

text \<open>The flips and the rotation at the end of \<^verbatim>\<open>transformImage\<close>.\<close>

definition flip_and_rotate :: "('img, 'frame) image_lib \<Rightarrow> Options \<Rightarrow> 'img \<Rightarrow> 'img" where
  "flip_and_rotate L opt m1 =
     (let m2 = (if FlipVertical opt then imaging_FlipV L m1 else m1);
          m3 = (if FlipHorizontal opt then imaging_FlipH L m2 else m2)
      in if Rotate opt = 90 then imaging_Rotate90 L m3
         else if Rotate opt = 180 then imaging_Rotate180 L m3
         else if Rotate opt = 270 then imaging_Rotate270 L m3
         else m3)"

definition transformImage ::
  "('img, 'frame) image_lib \<Rightarrow> f64_arith \<Rightarrow> 'img \<Rightarrow> Options \<Rightarrow> 'img" where
  "transformImage L F m opt =
     flip_and_rotate L opt
       (case resizeParams F (Bounds L m) opt of
          (w, h, resize) \<Rightarrow>
            if resize then
              (if Fit opt then imaging_Fit L m w h
               else if w = 0 \<or> h = 0 then imaging_Resize L m w h
               else imaging_Thumbnail L m w h)
            else m)"

text \<open>
  \<^verbatim>\<open>GifProcess\<close>. The canvas \<^verbatim>\<open>img\<close> is a pointer and \<^verbatim>\<open>previous\<close> is a copy of that
  pointer, so the disposal \<^verbatim>\<open>DisposalPrevious\<close> leaves the canvas as it is; the disposal
  \<^verbatim>\<open>DisposalBackground\<close> (the value 2) starts a new canvas.
\<close>

definition DisposalBackground :: byte where
  "DisposalBackground = 2"

fun gif_frames ::
  "('img, 'frame) image_lib \<Rightarrow> ('img \<Rightarrow> 'img) \<Rightarrow> rectangle \<Rightarrow> 'img
     \<Rightarrow> 'frame list \<Rightarrow> byte list \<Rightarrow> go_panic + 'frame list" where
  "gif_frames L tr b img [] disposal = Inr []"
| "gif_frames L tr b img (frame # frames) [] = Inl IndexOutOfRange"
| "gif_frames L tr b img (frame # frames) (disp # disposal) =
     (let bounds = frame_Bounds L frame;
          img1 = draw_Over L img bounds frame;
          out = imageToPaletted L (tr img1) frame;
          img2 = (if disp = DisposalBackground then image_NewRGBA L b else img1)
      in case gif_frames L tr b img2 frames disposal of
           Inl p \<Rightarrow> Inl p
         | Inr outs \<Rightarrow> Inr (out # outs))"

definition GifProcess ::
  "('img, 'frame) image_lib \<Rightarrow> bytes \<Rightarrow> ('img \<Rightarrow> 'img) option
     \<Rightarrow> go_panic + (string + bytes)" where
  "GifProcess L r tr =
     (case tr of
        None \<Rightarrow> Inr (Inr r)
      | Some f \<Rightarrow>
         (case gif_DecodeAll L r of
            Inl err \<Rightarrow> Inr (Inl err)
          | Inr im \<Rightarrow>
             (case gif_Image im of
                [] \<Rightarrow> Inl IndexOutOfRange
              | first # _ \<Rightarrow>
                 (let firstFrame = frame_Bounds L first;
                      b = \<lparr>MinX = 0, MinY = 0,
                           MaxX = MaxX firstFrame - MinX firstFrame,
                           MaxY = MaxY firstFrame - MinY firstFrame\<rparr>
                  in case gif_frames L f b (image_NewRGBA L b) (gif_Image im) (gif_Disposal im) of
                       Inl p \<Rightarrow> Inl p
                     | Inr [] \<Rightarrow> Inl IndexOutOfRange
                     | Inr (out # outs) \<Rightarrow>
                         Inr (gif_EncodeAll L
                                (im\<lparr>gif_Image := out # outs,
                                    gif_Config_Width := MaxX (frame_Bounds L out),
                                    gif_Config_Height := MaxY (frame_Bounds L out)\<rparr>))))))"

text \<open>
  \<^verbatim>\<open>DetectFormat\<close> and \<^verbatim>\<open>Transform\<close> return the bytes, the format and an error; here
  they return the error, or the bytes with the format. \<^verbatim>\<open>DetectFormat\<close> returns no
  bytes (\<^verbatim>\<open>nil\<close>) when nothing is to be encoded.
\<close>

definition not_supported :: "string \<Rightarrow> string" where
  "not_supported format = ''image format '' @ format @ '' not supported''"

definition quality_or_default :: "Options \<Rightarrow> 64 word" where
  "quality_or_default opt = (if Quality opt = 0 then defaultQuality else Quality opt)"

definition encoded :: "string \<Rightarrow> string + bytes \<Rightarrow> go_panic + (string + (bytes \<times> string))" where
  "encoded format res =
     (case res of Inl err \<Rightarrow> Inr (Inl err) | Inr b \<Rightarrow> Inr (Inr (b, format)))"

definition DetectFormat ::
  "('img, 'frame) image_lib \<Rightarrow> bytes \<Rightarrow> Options
     \<Rightarrow> go_panic + (string + (bytes option \<times> string))" where
  "DetectFormat L img opt =
     (case image_Decode L img of
        Inl err \<Rightarrow> Inr (Inl err)
      | Inr (m, format0) \<Rightarrow>
          if Format opt = [] \<or> format0 = Format opt \<or> format0 = ImageFormatGif
          then Inr (Inr (None, format0))
          else
            (let format = Format opt;
                 some = map_sum id (map_sum id (\<lambda>(b, f). (Some b, f)))
             in if format = ImageFormatGif then
                  (case GifProcess L img (Some (\<lambda>i. i)) of
                     Inl p \<Rightarrow> Inl p
                   | Inr res \<Rightarrow> some (encoded format res))
                else if format = ImageFormatWebp then
                  some (encoded format (webp_Encode L m (quality_or_default opt)))
                else if format = ImageFormatJpg \<or> format = ImageFormatJpeg then
                  some (encoded ImageFormatJpeg (jpeg_Encode L m (quality_or_default opt)))
                else if format = ImageFormatPng then
                  some (encoded format (png_Encode L m))
                else Inr (Inl (not_supported format))))"

definition Transform ::
  "('img, 'frame) image_lib \<Rightarrow> f64_arith \<Rightarrow> bytes \<Rightarrow> Options
     \<Rightarrow> go_panic + (string + (bytes \<times> string))" where
  "Transform L F img opt =
     (case image_Decode L img of
        Inl err \<Rightarrow> Inr (Inl err)
      | Inr (m, format0) \<Rightarrow>
          if \<not> transform opt
             \<and> (Format opt = [] \<or> Format opt = format0 \<or> ImageFormatGif = format0)
          then Inr (Inr (img, format0))
          else
            (let format = (if length (Format opt) > 0 \<and> format0 \<noteq> ImageFormatGif
                           then Format opt else format0);
                 m' = (if transform opt then transformImage L F m opt else m)
             in if format = ImageFormatGif then
                  (case GifProcess L img
                          (Some (\<lambda>i. if transform opt then transformImage L F i opt else i)) of
                     Inl p \<Rightarrow> Inl p
                   | Inr res \<Rightarrow> encoded format res)
                else if format = ImageFormatWebp then
                  encoded format (webp_Encode L m' (quality_or_default opt))
                else if format = ImageFormatJpg \<or> format = ImageFormatJpeg then
                  encoded ImageFormatJpeg (jpeg_Encode L m' (quality_or_default opt))
                else if format = ImageFormatPng then
                  encoded format (png_Encode L m')
                else Inr (Inl (not_supported format))))"

text \<open>
  A stand-in for the image libraries, for running the functions on concrete inputs: a
  picture is its width and its height, and an encoded picture is three bytes, a letter for
  the format (\<open>G\<close>, \<open>J\<close>, \<open>P\<close>, \<open>W\<close>), the width and the height. The operations of the
  \<^verbatim>\<open>imaging\<close> package give the sizes its documentation states: \<^verbatim>\<open>Thumbnail\<close> fills
  the requested box, \<^verbatim>\<open>Resize\<close> with one dimension 0 keeps the aspect ratio, \<^verbatim>\<open>Fit\<close>
  scales down to fit the box and never enlarges, flips keep the size and quarter turns
  swap it.
\<close>

type_synonym size_img = "int \<times> int"

definition size_decode :: "bytes \<Rightarrow> string + (size_img \<times> string)" where
  "size_decode bs =
     (case bs of
        [t, w, h] \<Rightarrow>
          if t = 71 then Inr ((uint w, uint h), ''gif'')
          else if t = 74 then Inr ((uint w, uint h), ''jpeg'')
          else if t = 80 then Inr ((uint w, uint h), ''png'')
          else if t = 87 then Inr ((uint w, uint h), ''webp'')
          else Inl ''image: unknown format''
      | _ \<Rightarrow> Inl ''image: unknown format'')"

definition size_encode :: "byte \<Rightarrow> size_img \<Rightarrow> string + bytes" where
  "size_encode t m = Inr [t, of_int (fst m), of_int (snd m)]"

definition size_bounds :: "size_img \<Rightarrow> rectangle" where
  "size_bounds m = \<lparr>MinX = 0, MinY = 0, MaxX = fst m, MaxY = snd m\<rparr>"

definition round_half_up :: "rat \<Rightarrow> int" where
  "round_half_up x = \<lfloor>x + 1 / 2\<rfloor>"

definition size_Resize :: "size_img \<Rightarrow> int \<Rightarrow> int \<Rightarrow> size_img" where
  "size_Resize m w h =
     (if w < 0 \<or> h < 0 \<or> (w = 0 \<and> h = 0) \<or> fst m \<le> 0 \<or> snd m \<le> 0 then (0, 0)
      else if w = 0 then (max 1 (round_half_up (of_int h * of_int (fst m) / of_int (snd m))), h)
      else if h = 0 then (w, max 1 (round_half_up (of_int w * of_int (snd m) / of_int (fst m))))
      else (w, h))"

definition size_Fit :: "size_img \<Rightarrow> int \<Rightarrow> int \<Rightarrow> size_img" where
  "size_Fit m w h =
     (if w \<le> 0 \<or> h \<le> 0 \<or> fst m \<le> 0 \<or> snd m \<le> 0 then (0, 0)
      else if fst m \<le> w \<and> snd m \<le> h then m
      else if fst m * h > w * snd m
           then size_Resize m w (go_trunc (of_int w * of_int (snd m) / of_int (fst m)))
           else size_Resize m (go_trunc (of_int h * of_int (fst m) / of_int (snd m))) h)"

definition size_Thumbnail :: "size_img \<Rightarrow> int \<Rightarrow> int \<Rightarrow> size_img" where
  "size_Thumbnail m w h =
     (if w \<le> 0 \<or> h \<le> 0 \<or> fst m \<le> 0 \<or> snd m \<le> 0 then (0, 0) else (w, h))"

definition size_lib :: "(size_img, size_img) image_lib" where
  "size_lib =
     \<lparr>image_Decode = size_decode,
      Bounds = size_bounds,
      imaging_Fit = size_Fit,
      imaging_Resize = size_Resize,
      imaging_Thumbnail = size_Thumbnail,
      imaging_FlipV = (\<lambda>m. m),
      imaging_FlipH = (\<lambda>m. m),
      imaging_Rotate90 = (\<lambda>m. (snd m, fst m)),
      imaging_Rotate180 = (\<lambda>m. m),
      imaging_Rotate270 = (\<lambda>m. (snd m, fst m)),
      webp_Encode = (\<lambda>m q. size_encode 87 m),
      jpeg_Encode = (\<lambda>m q. size_encode 74 m),
      png_Encode = size_encode 80,
      gif_DecodeAll = (\<lambda>bs. case size_decode bs of
                            Inl err \<Rightarrow> Inl err
                          | Inr (m, f) \<Rightarrow>
                              if f = ''gif''
                              then Inr \<lparr>gif_Image = [m], gif_Disposal = [0],
                                       gif_Config_Width = fst m, gif_Config_Height = snd m\<rparr>
                              else Inl ''gif: can't recognize format''),
      gif_EncodeAll = (\<lambda>g. case gif_Image g of
                            [] \<Rightarrow> Inl ''gif: must provide at least one image''
                          | m # _ \<Rightarrow> size_encode 71 m),
      frame_Bounds = size_bounds,
      image_NewRGBA = (\<lambda>r. (MaxX r - MinX r, MaxY r - MinY r)),
      draw_Over = (\<lambda>img r frame. img),
      imageToPaletted = (\<lambda>img frame. img)\<rparr>"

text \<open>Exact arithmetic, and the result of amd64 for a conversion out of range.\<close>

definition exact_arith :: f64_arith where
  "exact_arith = \<lparr>fl = (\<lambda>x. x), oob = (\<lambda>x. - (2 ^ 63))\<rparr>"

section \<open>URLs and HTTP messages\<close>

text \<open>
  A \<^verbatim>\<open>url.URL\<close> with the fields that the sources read or write. Parsing, printing and
  resolving a reference are the functions of \<^verbatim>\<open>net/url\<close>, parameters here, as is the
  parsing of the query string into \<^verbatim>\<open>url.Values\<close>.
\<close>

record url =
  Scheme :: string
  Host :: string
  Path :: string
  RawQuery :: string
  Fragment :: string

record url_lib =
  url_Parse :: "string \<Rightarrow> string + url"
  url_String :: "url \<Rightarrow> string"
  url_ResolveReference :: "url \<Rightarrow> url \<Rightarrow> url"
  url_Query :: "url \<Rightarrow> (string \<rightharpoonup> string list)"

definition IsAbs :: "url \<Rightarrow> bool" where
  "IsAbs u = (Scheme u \<noteq> [])"

text \<open>
  \<^verbatim>\<open>Values.Get\<close> and \<^verbatim>\<open>Header.Get\<close>: the first value of the key, or the empty string.
  The keys of a header are in canonical form, as the sources write them.
\<close>

definition Get :: "(string \<rightharpoonup> string list) \<Rightarrow> string \<Rightarrow> string" where
  "Get vs key = (case vs key of None \<Rightarrow> [] | Some [] \<Rightarrow> [] | Some (v # _) \<Rightarrow> v)"

text \<open>
  \<^verbatim>\<open>url.QueryEscape\<close>: letters, digits and the four marks stay, a space becomes a plus
  sign, every other byte is written in hexadecimal.
\<close>

definition unreserved :: "char \<Rightarrow> bool" where
  "unreserved c \<longleftrightarrow>
     (let n = (of_char c :: int)
      in (48 \<le> n \<and> n \<le> 57) \<or> (65 \<le> n \<and> n \<le> 90) \<or> (97 \<le> n \<and> n \<le> 122)
         \<or> c = CHR ''-'' \<or> c = CHR ''_'' \<or> c = CHR ''.'' \<or> c = CHR ''~'')"

definition upperhex :: string where
  "upperhex = ''0123456789ABCDEF''"

definition escape_byte :: "char \<Rightarrow> string" where
  "escape_byte c =
     (if unreserved c then [c]
      else if c = CHR '' '' then ''+''
      else [CHR ''%'', upperhex ! (of_char c div 16), upperhex ! (of_char c mod 16)])"

definition QueryEscape :: "string \<Rightarrow> string" where
  "QueryEscape s = concat (map escape_byte s)"

type_synonym header = "string \<rightharpoonup> string list"

record http_Request =
  req_URL :: url
  req_Header :: header

record http_Response =
  StatusCode :: int
  Header :: header
  Body :: bytes

fun Contains :: "string \<Rightarrow> string \<Rightarrow> bool" where
  "Contains [] sub = (sub = [])"
| "Contains (c # cs) sub = (HasPrefix (c # cs) sub \<or> Contains cs sub)"

definition ContentTypeWebp :: string where
  "ContentTypeWebp = ''image/webp''"

definition HasWebpSupport :: "http_Request \<Rightarrow> bool" where
  "HasWebpSupport r = Contains (Get (req_Header r) ''Accept'') ContentTypeWebp"

section \<open>imageproxy: the request and its normal form\<close>

record Request =
  URL :: url
  Options :: Options
  Original :: "http_Request option"

datatype request_error = InvalidUrl | URLError string

definition kCloudFrontPattern :: string where
  "kCloudFrontPattern = ''tools/im/''"

definition ParamVersionTs :: string where
  "ParamVersionTs = ''ts''"

definition ParamToken :: string where
  "ParamToken = ''tk''"

text \<open>
  The regular expression \<^verbatim>\<open>^ts\d+$\<close>, and the step of \<^verbatim>\<open>NewRequest\<close> that takes such a
  last path component off: the version (the digits) and the rest of the path.
\<close>

definition matches_ts :: "string \<Rightarrow> bool" where
  "matches_ts s \<longleftrightarrow> take 2 s = ''ts'' \<and> drop 2 s \<noteq> [] \<and> list_all is_digit (drop 2 s)"

definition split_forceTs :: "string \<Rightarrow> string \<times> string" where
  "split_forceTs path =
     (if CHR ''/'' \<in> set path then
        (let lastComponent = rev (takeWhile (\<lambda>c. c \<noteq> CHR ''/'') (rev path));
             lastIdx = length path - length lastComponent - 1
         in if matches_ts lastComponent then (drop 2 lastComponent, take lastIdx path)
            else ([], path))
      else ([], path))"

text \<open>
  \<^verbatim>\<open>parseURL\<close>: the expression \<^verbatim>\<open>^(https?):/+([^/])\<close> is replaced by
  \<^verbatim>\<open>$1://$2\<close>, then the string is parsed.
\<close>

definition clean_slashes :: "string \<Rightarrow> string" where
  "clean_slashes s =
     (let scheme = (if HasPrefix s ''https:'' then ''https''
                    else if HasPrefix s ''http:'' then ''http'' else []);
          rest = drop (length scheme + 1) s;
          after = dropWhile (\<lambda>c. c = CHR ''/'') rest
      in if scheme \<noteq> [] \<and> HasPrefix rest ''/'' \<and> after \<noteq> []
         then scheme @ ''://'' @ after
         else s)"

definition parseURL :: "url_lib \<Rightarrow> string \<Rightarrow> string + url" where
  "parseURL U s = url_Parse U (clean_slashes s)"

text \<open>The last step of \<^verbatim>\<open>NewRequest\<close>: the query of the normalized URL.\<close>

definition normal_query :: "string \<Rightarrow> string \<Rightarrow> string" where
  "normal_query forceTs ts =
     (if length forceTs > 0 then ''ts='' @ QueryEscape forceTs
      else if length ts > 0 then ''ts='' @ QueryEscape ts
      else [])"

text \<open>
  \<^verbatim>\<open>NewRequest\<close>. The expression \<^verbatim>\<open>r.URL.Path[1:]\<close> panics on an empty path.
\<close>

definition NewRequest ::
  "url_lib \<Rightarrow> (string \<Rightarrow> float64 \<times> bool) \<Rightarrow> http_Request \<Rightarrow> url option
     \<Rightarrow> go_panic + (request_error + Request)" where
  "NewRequest U ParseFloat r baseURL =
     (if Path (req_URL r) = [] then Inl SliceBoundsOutOfRange
      else
        let path0 = drop 1 (Path (req_URL r)) in
        if \<not> HasPrefix path0 kCloudFrontPattern then Inr (Inl InvalidUrl)
        else
          let (forceTs, path) = split_forceTs (TrimPrefix path0 kCloudFrontPattern);
              useWebp = HasWebpSupport r;
              parsed =
                (case parseURL U path of
                   Inr u \<Rightarrow>
                     if IsAbs u
                     then Inr (u, if useWebp then emptyOptions\<lparr>Format := ''webp''\<rparr>
                                  else emptyOptions)
                     else Inl ()
                 | Inl err \<Rightarrow> Inl ());
              first =
                (case parsed of
                   Inr uo \<Rightarrow> Inr uo
                 | Inl _ \<Rightarrow>
                     (let parts = SplitN2 CHR ''/'' path in
                      if length parts \<noteq> 2 then Inl (URLError ''too few path segments'')
                      else case parseURL U (parts ! 1) of
                             Inl err \<Rightarrow> Inl (URLError (''unable to parse remote URL: '' @ err))
                           | Inr u \<Rightarrow> Inr (u, ParseOptions ParseFloat (parts ! 0) useWebp)))
          in case first of
               Inl e \<Rightarrow> Inr (Inl e)
             | Inr (u0, options) \<Rightarrow>
                 (let u = (case baseURL of
                             Some base \<Rightarrow> url_ResolveReference U base u0
                           | None \<Rightarrow> u0)
                  in if \<not> IsAbs u then Inr (Inl (URLError ''must provide absolute remote URL''))
                     else if Scheme u \<noteq> ''http'' \<and> Scheme u \<noteq> ''https''
                       then Inr (Inl (URLError ''remote URL must have http or https scheme''))
                     else
                       let ts = Get (url_Query U (req_URL r)) ParamVersionTs
                       in Inr (Inr \<lparr>URL = u\<lparr>RawQuery := normal_query forceTs ts\<rparr>,
                                    Options = options,
                                    Original = Some r\<rparr>)))"

text \<open>\<^verbatim>\<open>Request.String\<close>, and the cache keys of \<^verbatim>\<open>cache/httpcache.go\<close>.\<close>

definition Request_String :: "url_lib \<Rightarrow> (float64 \<Rightarrow> string) \<Rightarrow> Request \<Rightarrow> string" where
  "Request_String U fmt_v r = url_String U ((URL r)\<lparr>Fragment := String fmt_v (Options r)\<rparr>)"

definition CacheKeyForURL :: "url_lib \<Rightarrow> url \<Rightarrow> string" where
  "CacheKeyForURL U u = map (\<lambda>c. if c = CHR ''#'' then CHR ''_'' else c) (url_String U u)"

definition CacheKey :: "url_lib \<Rightarrow> http_Request \<Rightarrow> string" where
  "CacheKey U req = map (\<lambda>c. if c = CHR ''#'' then CHR ''_'' else c) (url_String U (req_URL req))"

text \<open>
  A stand-in for \<^verbatim>\<open>net/url\<close>, for running the functions on concrete inputs: it knows
  URLs made of \<^verbatim>\<open>http://\<close> or \<^verbatim>\<open>https://\<close>, a host and a path, and relative paths; a
  query is a list of \<^verbatim>\<open>key=value\<close> pairs between ampersands, without escapes.
\<close>

definition simple_Parse :: "string \<Rightarrow> string + url" where
  "simple_Parse s =
     (let scheme = (if HasPrefix s ''https://'' then ''https''
                    else if HasPrefix s ''http://'' then ''http'' else []);
          rest = (if scheme = [] then s else drop (length scheme + 3) s)
      in if scheme = [] then Inr \<lparr>Scheme = [], Host = [], Path = s, RawQuery = [], Fragment = []\<rparr>
         else Inr \<lparr>Scheme = scheme,
                   Host = takeWhile (\<lambda>c. c \<noteq> CHR ''/'') rest,
                   Path = dropWhile (\<lambda>c. c \<noteq> CHR ''/'') rest,
                   RawQuery = [], Fragment = []\<rparr>)"

definition simple_String :: "url \<Rightarrow> string" where
  "simple_String u =
     (if Scheme u = [] then [] else Scheme u @ ''://'' @ Host u)
     @ Path u
     @ (if RawQuery u = [] then [] else CHR ''?'' # RawQuery u)
     @ (if Fragment u = [] then [] else CHR ''#'' # Fragment u)"

definition simple_ResolveReference :: "url \<Rightarrow> url \<Rightarrow> url" where
  "simple_ResolveReference base ref =
     (if IsAbs ref then ref
      else base\<lparr>Path := (if HasPrefix (Path ref) ''/'' then Path ref else CHR ''/'' # Path ref),
                RawQuery := RawQuery ref, Fragment := Fragment ref\<rparr>)"

definition simple_Query :: "url \<Rightarrow> (string \<rightharpoonup> string list)" where
  "simple_Query u =
     (if RawQuery u = [] then Map.empty
      else foldr (\<lambda>kv m. case SplitN2 CHR ''='' kv of
                           [k, v] \<Rightarrow> m(k \<mapsto> v # (case m k of None \<Rightarrow> [] | Some vs \<Rightarrow> vs))
                         | _ \<Rightarrow> m(kv \<mapsto> [] # (case m kv of None \<Rightarrow> [] | Some vs \<Rightarrow> vs)))
                 (Split1 CHR ''&'' (RawQuery u)) Map.empty)"

definition simple_url_lib :: url_lib where
  "simple_url_lib =
     \<lparr>url_Parse = simple_Parse, url_String = simple_String,
      url_ResolveReference = simple_ResolveReference, url_Query = simple_Query\<rparr>"

text \<open>A request for a 150-pixel thumbnail with a version stamp in the path, and the base URL
  of the remote server, for running \<open>NewRequest\<close>.\<close>

definition demo_request :: "string \<Rightarrow> http_Request" where
  "demo_request q =
     \<lparr>req_URL = \<lparr>Scheme = [], Host = [],
                  Path = ''/tools/im/150/production/cover.png/ts1490782085'',
                  RawQuery = q, Fragment = []\<rparr>,
      req_Header = Map.empty\<rparr>"

definition demo_base :: url where
  "demo_base = \<lparr>Scheme = ''http'', Host = ''awss3'', Path = [], RawQuery = [], Fragment = []\<rparr>"

section \<open>Signed URLs\<close>

text \<open>
  \<^verbatim>\<open>base64.RawURLEncoding\<close> of the Go standard library: the URL alphabet, no padding.
  Three bytes make four characters; one or two bytes left over make two or three
  characters. Decoding skips carriage returns and line feeds, fails on any other character
  outside the alphabet and on a single character left over, and ignores the unused low bits
  of the last character.
\<close>

definition encodeURL :: string where
  "encodeURL = ''ABCDEFGHIJKLMNOPQRSTUVWXYZabcdefghijklmnopqrstuvwxyz0123456789-_''"

definition enc6 :: "nat \<Rightarrow> char" where
  "enc6 n = encodeURL ! (n mod 64)"

fun index_of :: "char \<Rightarrow> string \<Rightarrow> nat option" where
  "index_of c [] = None"
| "index_of c (d # ds) = (if c = d then Some 0 else map_option Suc (index_of c ds))"

definition dec6 :: "char \<Rightarrow> nat option" where
  "dec6 c = index_of c encodeURL"

fun EncodeToString :: "bytes \<Rightarrow> string" where
  "EncodeToString (a # b # c # rest) =
     (let v = unat a * 65536 + unat b * 256 + unat c
      in [enc6 (v div 262144), enc6 (v div 4096), enc6 (v div 64), enc6 v])
     @ EncodeToString rest"
| "EncodeToString [a, b] =
     (let v = unat a * 65536 + unat b * 256
      in [enc6 (v div 262144), enc6 (v div 4096), enc6 (v div 64)])"
| "EncodeToString [a] =
     (let v = unat a * 65536
      in [enc6 (v div 262144), enc6 (v div 4096)])"
| "EncodeToString [] = []"

fun decode_quanta :: "string \<Rightarrow> bytes option" where
  "decode_quanta (c1 # c2 # c3 # c4 # rest) =
     (case (dec6 c1, dec6 c2, dec6 c3, dec6 c4) of
        (Some v1, Some v2, Some v3, Some v4) \<Rightarrow>
          (let v = v1 * 262144 + v2 * 4096 + v3 * 64 + v4
           in map_option (\<lambda>bs. [of_nat (v div 65536), of_nat (v div 256), of_nat v] @ bs)
                (decode_quanta rest))
      | _ \<Rightarrow> None)"
| "decode_quanta [c1, c2, c3] =
     (case (dec6 c1, dec6 c2, dec6 c3) of
        (Some v1, Some v2, Some v3) \<Rightarrow>
          (let v = v1 * 262144 + v2 * 4096 + v3 * 64
           in Some [of_nat (v div 65536), of_nat (v div 256)])
      | _ \<Rightarrow> None)"
| "decode_quanta [c1, c2] =
     (case (dec6 c1, dec6 c2) of
        (Some v1, Some v2) \<Rightarrow>
          (let v = v1 * 262144 + v2 * 4096
           in Some [of_nat (v div 65536)])
      | _ \<Rightarrow> None)"
| "decode_quanta [c1] = None"
| "decode_quanta [] = Some []"

definition DecodeString :: "string \<Rightarrow> bytes option" where
  "DecodeString s = decode_quanta (filter (\<lambda>c. c \<noteq> CHR 0x0D \<and> c \<noteq> CHR 0x0A) s)"

text \<open>\<^verbatim>\<open>binary.BigEndian.PutUint32\<close> and \<^verbatim>\<open>binary.BigEndian.Uint32\<close>.\<close>

definition PutUint32 :: "32 word \<Rightarrow> bytes" where
  "PutUint32 v = [ucast (drop_bit 24 v), ucast (drop_bit 16 v), ucast (drop_bit 8 v), ucast v]"

definition Uint32 :: "bytes \<Rightarrow> go_panic + 32 word" where
  "Uint32 b =
     (if 3 < length b
      then Inr (ucast (b ! 3) OR push_bit 8 (ucast (b ! 2)) OR push_bit 16 (ucast (b ! 1))
                OR push_bit 24 (ucast (b ! 0)))
      else Inl IndexOutOfRange)"

text \<open>
  The configuration of \<^verbatim>\<open>sign.go\<close>: the key of the HMAC and the number that masks the
  expiry time. HMAC-SHA256 is a parameter, a function of the key and the message; the
  conversion \<^verbatim>\<open>[]byte(s)\<close> of a string is \<open>bytes_of\<close>.
\<close>

record sign_config =
  SimpleKey :: bytes
  MagicNum :: "64 word"

type_synonym hmac = "bytes \<Rightarrow> bytes \<Rightarrow> bytes"

definition bytes_of :: "string \<Rightarrow> bytes" where
  "bytes_of s = map of_char s"

definition strip_slash :: "string \<Rightarrow> string" where
  "strip_slash path = (if HasPrefix path ''/'' then drop 1 path else path)"

definition SimpleToken :: "hmac \<Rightarrow> sign_config \<Rightarrow> string \<Rightarrow> string \<Rightarrow> string \<Rightarrow> bytes" where
  "SimpleToken H cfg path ts oe =
     H (SimpleKey cfg)
       (bytes_of path @
        (if length ts > 0 then bytes_of (''?ts='' @ ts) @ bytes_of (''&oe='' @ oe)
         else bytes_of (''?oe='' @ oe)))"

definition SimpleTimeToStr :: "sign_config \<Rightarrow> 64 word \<Rightarrow> string \<times> bytes" where
  "SimpleTimeToStr cfg time =
     (let expires = PutUint32 (ucast (time XOR MagicNum cfg))
      in (EncodeToString expires, expires))"

definition SimpleTimeByteToStr :: "bytes \<Rightarrow> string" where
  "SimpleTimeByteToStr time = EncodeToString time"

text \<open>
  \<^verbatim>\<open>SimpleSignUrlWithTime\<close>; \<open>signed_token\<close> is its local variable \<^verbatim>\<open>token\<close>, the value
  of the parameter \<^verbatim>\<open>tk\<close> of the URL that it returns.
\<close>

definition signed_token :: "hmac \<Rightarrow> sign_config \<Rightarrow> string \<Rightarrow> string \<Rightarrow> 64 word \<Rightarrow> string" where
  "signed_token H cfg path0 ts time =
     (let path = strip_slash path0;
          (oe, oeBytes) = SimpleTimeToStr cfg time;
          want = SimpleToken H cfg path ts oe @ oeBytes
      in EncodeToString want)"

definition SimpleSignUrlWithTime ::
  "hmac \<Rightarrow> sign_config \<Rightarrow> string \<Rightarrow> string \<Rightarrow> 64 word \<Rightarrow> string" where
  "SimpleSignUrlWithTime H cfg path0 ts time =
     (let path = strip_slash path0;
          token = signed_token H cfg path0 ts time
      in if length ts > 0 then path @ ''?ts='' @ ts @ ''&tk='' @ token
         else path @ ''?tk='' @ token)"

text \<open>
  \<^verbatim>\<open>SimpleVerify\<close>, with the value of \<^verbatim>\<open>time.Now().Unix()\<close> as an argument. The expiry
  time is read back as a \<^verbatim>\<open>uint32\<close> and compared as an \<^verbatim>\<open>int64\<close>.
\<close>

definition SimpleVerify ::
  "hmac \<Rightarrow> sign_config \<Rightarrow> 64 word \<Rightarrow> string \<Rightarrow> string \<Rightarrow> string \<Rightarrow> bool \<Rightarrow> go_panic + bool" where
  "SimpleVerify H cfg now path0 ts token checkExpire =
     (let path = strip_slash path0
      in case DecodeString token of
           None \<Rightarrow> Inr False
         | Some tokenBytes \<Rightarrow>
             if length tokenBytes < 5 then Inr False
             else
               case slice_lo tokenBytes (length tokenBytes - 4) of
                 Inl p \<Rightarrow> Inl p
               | Inr last4 \<Rightarrow>
                   (case Uint32 last4 of
                      Inl p \<Rightarrow> Inl p
                    | Inr v \<Rightarrow>
                        let expireTime = v XOR (ucast (MagicNum cfg) :: 32 word)
                        in if checkExpire \<and> (ucast expireTime :: 64 word) <s now then Inr False
                           else
                             let oe = SimpleTimeByteToStr last4;
                                 want = SimpleToken H cfg path ts oe
                             in Inr (take (length tokenBytes - 4) tokenBytes = want)))"

text \<open>The MAC of HMAC-SHA256 has \<^verbatim>\<open>sha256.Size\<close> bytes.\<close>

definition hmac_sha256_size :: "hmac \<Rightarrow> bool" where
  "hmac_sha256_size H \<longleftrightarrow> (\<forall>key msg. length (H key msg) = 32)"

text \<open>A stand-in for HMAC-SHA256 with 32 bytes of output, for running the functions.\<close>

definition demo_hmac :: hmac where
  "demo_hmac key msg = map (\<lambda>i. fold (\<lambda>b acc. 31 * acc + b + of_nat i) (key @ msg) 7) [0..<32]"

definition demo_config :: sign_config where
  "demo_config = \<lparr>SimpleKey = bytes_of ''secret'', MagicNum = 0x12345678\<rparr>"

section \<open>The proxy\<close>

text \<open>
  Of the \<^verbatim>\<open>Proxy\<close>, the fields that \<^verbatim>\<open>allowed\<close> and \<^verbatim>\<open>serveImage\<close> read; its HTTP
  client is a parameter of \<open>serveImage\<close>.
\<close>

record Proxy =
  Whitelist :: "string list"
  Referrers :: "string list"
  DefaultBaseURL :: "url option"

definition ContentTypeJPEG :: string where "ContentTypeJPEG = ''image/jpeg''"
definition ContentTypePNG :: string where "ContentTypePNG = ''image/png''"
definition ContentTypeGIF :: string where "ContentTypeGIF = ''image/gif''"

definition FileContentType :: "string \<Rightarrow> string" where
  "FileContentType format =
     (if format = ImageFormatJpeg \<or> format = ImageFormatJpg then ContentTypeJPEG
      else if format = ImageFormatGif then ContentTypeGIF
      else if format = ImageFormatPng then ContentTypePNG
      else if format = ImageFormatWebp then ContentTypeWebp
      else [])"

fun validHost :: "string list \<Rightarrow> url \<Rightarrow> bool" where
  "validHost [] u = False"
| "validHost (host # hosts) u =
     (if Host u = host then True
      else if HasPrefix host ''*.'' \<and> HasSuffix (Host u) (drop 2 host) then True
      else validHost hosts u)"

text \<open>
  \<^verbatim>\<open>validReferrer\<close> reads the header of the original request through a pointer, which
  \<^verbatim>\<open>NewRequest\<close> always sets.
\<close>

definition validReferrer :: "url_lib \<Rightarrow> string list \<Rightarrow> http_Request option \<Rightarrow> go_panic + bool" where
  "validReferrer U hosts r =
     (case r of
        None \<Rightarrow> Inl NilPointerDereference
      | Some orig \<Rightarrow>
          (case url_Parse U (Get (req_Header orig) ''Referer'') of
             Inl err \<Rightarrow> Inr False
           | Inr u \<Rightarrow> Inr (validHost hosts u)))"

definition validSignature ::
  "hmac \<Rightarrow> sign_config \<Rightarrow> 64 word \<Rightarrow> url_lib \<Rightarrow> Request \<Rightarrow> go_panic + bool" where
  "validSignature H cfg now U r =
     (let (queries, path) =
            (case Original r of
               Some orig \<Rightarrow> (url_Query U (req_URL orig), Path (req_URL orig))
             | None \<Rightarrow> (url_Query U (URL r), Path (URL r)));
          ts = Get queries ParamVersionTs;
          token = Get queries ParamToken
      in if length token \<le> 5 then Inr False
         else SimpleVerify H cfg now path ts token True)"

datatype allowed_error =
    InvalidFileFormat string
  | ReferrerNotAllowed Request
  | HostNotAllowed Request

text \<open>\<^verbatim>\<open>Proxy.allowed\<close>: the error, if any, and whether the signature verifies.\<close>

definition allowed ::
  "hmac \<Rightarrow> sign_config \<Rightarrow> 64 word \<Rightarrow> url_lib \<Rightarrow> Proxy \<Rightarrow> Request
     \<Rightarrow> go_panic + (allowed_error option \<times> bool)" where
  "allowed H cfg now U p r =
     (let contentType = FileContentType (Format (Options r))
      in if length contentType = 0 \<and> length (Format (Options r)) > 0
         then Inr (Some (InvalidFileFormat (Format (Options r))), False)
         else
           case (if length (Referrers p) > 0 then validReferrer U (Referrers p) (Original r)
                 else Inr True) of
             Inl pn \<Rightarrow> Inl pn
           | Inr referrerOK \<Rightarrow>
               if \<not> referrerOK then Inr (Some (ReferrerNotAllowed r), False)
               else if length (Whitelist p) > 0 \<and> \<not> validHost (Whitelist p) (URL r)
                 then Inr (Some (HostNotAllowed r), False)
               else
                 (case validSignature H cfg now U r of
                    Inl pn \<Rightarrow> Inl pn
                  | Inr validSign \<Rightarrow> Inr (None, validSign)))"

text \<open>
  An \<^verbatim>\<open>http.ResponseWriter\<close>: the headers, the status once written, the body. The log is
  a list of entries; the line that \<^verbatim>\<open>writeResponseToWriter\<close> logs holds the status of the
  response, whether it came from the cache, the URL and \<^verbatim>\<open>signOK\<close> (the elapsed time is
  left out).
\<close>

record ResponseWriter =
  w_Header :: header
  w_Status :: "int option"
  w_Body :: bytes

datatype log_entry =
    LogError allowed_error
  | LogRequest string
  | LogServed int bool string bool

definition Header_Add :: "header \<Rightarrow> string \<Rightarrow> string \<Rightarrow> header" where
  "Header_Add h key v = h(key \<mapsto> (case h key of None \<Rightarrow> [] | Some vs \<Rightarrow> vs) @ [v])"

definition Header_Set :: "header \<Rightarrow> string \<Rightarrow> string \<Rightarrow> header" where
  "Header_Set h key v = h(key \<mapsto> [v])"

definition WriteHeader :: "ResponseWriter \<Rightarrow> int \<Rightarrow> ResponseWriter" where
  "WriteHeader w code = (case w_Status w of None \<Rightarrow> w\<lparr>w_Status := Some code\<rparr> | Some _ \<Rightarrow> w)"

definition Write :: "ResponseWriter \<Rightarrow> bytes \<Rightarrow> ResponseWriter" where
  "Write w data = (WriteHeader w 200)\<lparr>w_Body := w_Body w @ data\<rparr>"

definition StatusNotModified :: int where "StatusNotModified = 304"
definition StatusForbidden :: int where "StatusForbidden = 403"
definition StatusNotFound :: int where "StatusNotFound = 404"

definition XFromCache :: string where "XFromCache = ''X-From-Cache''"

text \<open>\<^verbatim>\<open>http.Error\<close> and \<^verbatim>\<open>http.NotFound\<close>.\<close>

definition http_Error :: "ResponseWriter \<Rightarrow> string \<Rightarrow> int \<Rightarrow> ResponseWriter" where
  "http_Error w msg code =
     (let h = Header_Set (Header_Set (w_Header w) ''Content-Type'' ''text/plain; charset=utf-8'')
                ''X-Content-Type-Options'' ''nosniff''
      in Write (WriteHeader (w\<lparr>w_Header := h\<rparr>) code) (bytes_of (msg @ [CHR 0x0A])))"

definition NotFound :: "ResponseWriter \<Rightarrow> ResponseWriter" where
  "NotFound w = http_Error w ''404 page not found'' StatusNotFound"

text \<open>
  \<^verbatim>\<open>copyHeader\<close>; the keys that the sources pass are in canonical form already.
\<close>

definition copyHeader :: "ResponseWriter \<Rightarrow> http_Response \<Rightarrow> string \<Rightarrow> ResponseWriter" where
  "copyHeader w r key =
     (case Header r key of
        Some v \<Rightarrow> w\<lparr>w_Header := (w_Header w)(key \<mapsto> v)\<rparr>
      | None \<Rightarrow> w)"

text \<open>
  \<^verbatim>\<open>check304\<close>. \<open>time_Parse\<close> is \<^verbatim>\<open>time.Parse(time.RFC1123, s)\<close>, a parameter: the
  instant in seconds, or nothing on an error. \<^verbatim>\<open>Before\<close> is the strict order of instants.
\<close>

definition Before :: "int \<Rightarrow> int \<Rightarrow> bool" where
  "Before t u = (t < u)"

definition check304 :: "(string \<Rightarrow> int option) \<Rightarrow> http_Request \<Rightarrow> http_Response \<Rightarrow> bool" where
  "check304 time_Parse req resp =
     (let etag = Get (Header resp) ''Etag''
      in if etag \<noteq> [] \<and> etag = Get (req_Header req) ''If-None-Match'' then True
         else
           case time_Parse (Get (Header resp) ''Last-Modified'') of
             None \<Rightarrow> False
           | Some lastModified \<Rightarrow>
               (case time_Parse (Get (req_Header req) ''If-Modified-Since'') of
                  None \<Rightarrow> False
                | Some ifModSince \<Rightarrow>
                    if Before lastModified ifModSince then True else False))"

definition writeResponseToWriter ::
  "url_lib \<Rightarrow> (string \<Rightarrow> int option) \<Rightarrow> http_Response \<Rightarrow> ResponseWriter \<Rightarrow> http_Request \<Rightarrow> bool
     \<Rightarrow> ResponseWriter \<times> log_entry list" where
  "writeResponseToWriter U time_Parse resp w0 r signOK =
     (let w1 = copyHeader w0 resp ''Cache-Control'';
          w2 = copyHeader w1 resp ''Last-Modified'';
          w3 = copyHeader w2 resp ''Expires'';
          w4 = copyHeader w3 resp ''Etag'';
          w5 = copyHeader w4 resp ''Link'';
          cached = Get (Header resp) XFromCache;
          entry = LogServed (StatusCode resp) (cached = ''1'') (url_String U (req_URL r)) signOK
      in if check304 time_Parse r resp
         then (WriteHeader (w5\<lparr>w_Header := Header_Add (w_Header w5) ''Vary'' ''Accept''\<rparr>)
                 StatusNotModified,
               [entry])
         else
           let w6 = copyHeader w5 resp ''Content-Length'';
               w7 = copyHeader w6 resp ''Content-Type'';
               w8 = w7\<lparr>w_Header := Header_Add (w_Header w7) ''Vary'' ''Accept''\<rparr>;
               w9 = w8\<lparr>w_Header := Header_Add (w_Header w8) ''Access-Control-Allow-Origin'' ''*''\<rparr>
           in (Write (WriteHeader w9 (StatusCode resp)) (Body resp), [entry]))"

text \<open>
  \<^verbatim>\<open>Proxy.serveImage\<close>. \<open>client_Get\<close> is \<^verbatim>\<open>p.Client.Get\<close>, a parameter: an error or
  the response for a URL.
\<close>

definition error_text :: "url_lib \<Rightarrow> (float64 \<Rightarrow> string) \<Rightarrow> allowed_error \<Rightarrow> string" where
  "error_text U fmt_v e =
     (case e of
        InvalidFileFormat f \<Rightarrow> ''Invalid file format '' @ f
      | ReferrerNotAllowed r \<Rightarrow>
          ''request does not contain an allowed referrer: '' @ Request_String U fmt_v r
      | HostNotAllowed r \<Rightarrow> ''request host not allowed: '' @ Request_String U fmt_v r)"

definition serveImage ::
  "hmac \<Rightarrow> sign_config \<Rightarrow> 64 word \<Rightarrow> url_lib \<Rightarrow> (string \<Rightarrow> float64 \<times> bool) \<Rightarrow> (float64 \<Rightarrow> string)
     \<Rightarrow> (string \<Rightarrow> int option) \<Rightarrow> (string \<Rightarrow> string + http_Response)
     \<Rightarrow> Proxy \<Rightarrow> ResponseWriter \<Rightarrow> http_Request \<Rightarrow> go_panic + ResponseWriter \<times> log_entry list" where
  "serveImage H cfg now U ParseFloat fmt_v time_Parse client_Get p w r =
     (case NewRequest U ParseFloat r (DefaultBaseURL p) of
        Inl pn \<Rightarrow> Inl pn
      | Inr (Inl err) \<Rightarrow> Inr (NotFound w, [])
      | Inr (Inr req) \<Rightarrow>
          (case allowed H cfg now U p req of
             Inl pn \<Rightarrow> Inl pn
           | Inr (Some err, signOK) \<Rightarrow>
               Inr (http_Error w (error_text U fmt_v err) StatusForbidden, [LogError err])
           | Inr (None, signOK) \<Rightarrow>
               (case client_Get (Request_String U fmt_v req) of
                  Inl err \<Rightarrow> Inr (NotFound w, [LogRequest (Request_String U fmt_v req)])
                | Inr resp \<Rightarrow>
                    (case writeResponseToWriter U time_Parse resp w r signOK of
                       (w', entries) \<Rightarrow>
                         Inr (w', LogRequest (Request_String U fmt_v req) # entries)))))"

text \<open>Stand-ins for running the proxy: a whitelist, an origin that answers 200.\<close>

definition demo_proxy :: Proxy where
  "demo_proxy = \<lparr>Whitelist = [''*.example.com'', ''awss3''], Referrers = [],
                  DefaultBaseURL = Some demo_base\<rparr>"

definition demo_client :: "string \<Rightarrow> string + http_Response" where
  "demo_client u = Inr \<lparr>StatusCode = 200, Header = Map.empty, Body = bytes_of ''image''\<rparr>"

definition demo_writer :: ResponseWriter where
  "demo_writer = \<lparr>w_Header = Map.empty, w_Status = None, w_Body = []\<rparr>"

definition demo_accepted :: Request where
  "demo_accepted =
     \<lparr>URL = \<lparr>Scheme = ''http'', Host = ''awss3'', Path = ''/production/cover.png'',
             RawQuery = ''ts=1490782085'', Fragment = []\<rparr>,
      Options = emptyOptions\<lparr>Width := Finite 150, Height := Finite 150\<rparr>,
      Original = Some (demo_request ''tk=abc'')\<rparr>"

chapter \<open>Properties\<close>

section \<open>The origin-cache entry\<close>

lemma Uint16_PutUint16: "Uint16 (PutUint16 v) = Inr v"
  unfolding Uint16_def PutUint16_def
  apply simp
  apply (rule bit_word_eqI)
  apply (auto simp add: bit_simps)
  done

lemma slice_PutUint16: "slice_lo_hi (PutUint16 v @ rest) spare 0 2 = Inr (PutUint16 v)"
  by (simp add: slice_lo_hi_def PutUint16_def)

text \<open>
  The serialized form is the big-endian 16-bit length, the headers, the image.
\<close>

lemma Bytes_layout:
  assumes "length (Headers m) < 2 ^ 16"
  shows "\<exists>p. Bytes m = p @ Headers m @ Image m \<and> length p = 2
             \<and> Uint16 p = Inr (of_nat (length (Headers m)))
             \<and> unat (of_nat (length (Headers m)) :: 16 word) = length (Headers m)"
proof (intro exI [of _ "PutUint16 (of_nat (length (Headers m)))"] conjI)
  show "unat (of_nat (length (Headers m)) :: 16 word) = length (Headers m)"
    using assms by (simp add: unat_of_nat)
qed (simp_all add: Bytes_def Uint16_PutUint16, simp add: PutUint16_def)

text \<open>
  Reading back what \<open>Bytes\<close> wrote gives the entry again as long as the headers are
  shorter than 65534 bytes, whatever lies behind the data in the backing array.
\<close>

lemma NewImageWithMetaFromCache_Bytes:
  assumes "length (Headers m) < 65534"
  shows "NewImageWithMetaFromCache (Bytes m) spare = Inr m"
proof -
  let ?n = "length (Headers m)"
  have u: "unat (2 + (of_nat ?n :: 16 word)) = 2 + ?n"
    using assms by (simp add: unat_word_ariths unat_of_nat)
  show ?thesis
    unfolding NewImageWithMetaFromCache_def Bytes_def
    apply (simp add: slice_PutUint16 Uint16_PutUint16 u)
    apply (simp add: slice_lo_hi_def slice_lo_def PutUint16_def u)
    done
qed

text \<open>
  Claim C9 (round trip of the origin-cache entry for every header block shorter than
  \<open>2^16\<close> bytes). The claim fails for header blocks of 65534 and 65535 bytes: the length
  prefix is written correctly, but \<^verbatim>\<open>2 + headLength\<close> wraps around in 16 bits to 0
  (or 1), and the slice expression \<^verbatim>\<open>data[2:0]\<close> panics. At a header block of 65534 zero
  bytes and an empty image the decoder does not return the entry but panics with
  "slice bounds out of range".
\<close>

theorem NewImageWithMetaFromCache_header_65534_panics:
  "NewImageWithMetaFromCache (Bytes \<lparr>Headers = replicate 65534 0, Image = []\<rparr>) []
     = Inl SliceBoundsOutOfRange"
  unfolding NewImageWithMetaFromCache_def Bytes_def
  apply (simp add: slice_PutUint16 Uint16_PutUint16)
  apply (simp add: slice_lo_hi_def)
  done

section \<open>Aligned expiry\<close>

lemma wrap64_id:
  "- 9223372036854775808 \<le> x \<Longrightarrow> x < 9223372036854775808 \<Longrightarrow> wrap64 x = x"
  by (simp add: wrap64_def)

lemma sdiv_pos: "0 < b \<Longrightarrow> (a::int) sdiv b = (if 0 \<le> a then a div b else - ((- a) div b))"
  by (auto simp: signed_divide_int_def sgn_if)

lemma smod_nonneg: "0 \<le> a \<Longrightarrow> 0 < b \<Longrightarrow> (a::int) smod b = a mod b"
  by (auto simp: signed_modulo_int_def sgn_if)

lemma div_mult_bounds:
  assumes "0 < (b::int)"
  shows "a div b * b \<le> a" and "a - b < a div b * b"
proof -
  have e: "a div b * b = a - a mod b" by (simp add: minus_mod_eq_div_mult)
  have "0 \<le> a mod b" "a mod b < b" using assms by simp_all
  then show "a div b * b \<le> a" and "a - b < a div b * b" using e by linarith+
qed

lemma sdiv_mult_bounds:
  assumes "0 < (b::int)"
  shows "0 \<le> a \<Longrightarrow> a - b < a sdiv b * b \<and> a sdiv b * b \<le> a"
    and "a < 0 \<Longrightarrow> a \<le> a sdiv b * b \<and> a sdiv b * b \<le> 0"
proof -
  show "0 \<le> a \<Longrightarrow> a - b < a sdiv b * b \<and> a sdiv b * b \<le> a"
    using div_mult_bounds [OF assms, of a] assms by (simp add: sdiv_pos)
  show "a < 0 \<Longrightarrow> a \<le> a sdiv b * b \<and> a sdiv b * b \<le> 0"
  proof -
    assume neg: "a < 0"
    have 1: "(- a) div b * b \<le> - a" using div_mult_bounds(1) [OF assms, of "- a"] .
    have "0 \<le> (- a) div b" using neg assms by (simp add: pos_imp_zdiv_nonneg_iff)
    then have 2: "0 \<le> (- a) div b * b" using assms by simp
    show ?thesis using 1 2 neg assms by (simp add: sdiv_pos)
  qed
qed

text \<open>
  Claim C7, amended. For a clock reading and a requested lifetime \<open>L\<close> below \<open>2^61\<close> in
  absolute value (no \<^verbatim>\<open>int64\<close> operation overflows), with \<open>L' = max L 86400\<close>,
  \<open>GenerateAlignedExpire\<close> returns \<open>((now + L' - 1) / L') * L' + (crc32 key mod L')\<close> with Go's
  truncating division, plus a further \<open>L'\<close> when that value is less than \<open>L'\<close> seconds after
  \<open>now\<close>; the returned expiry is at least \<open>L'\<close> seconds after \<open>now\<close>.
\<close>

theorem GenerateAlignedExpire_in_range:
  assumes now_lo: "- (2 ^ 61) < now" and now_hi: "now < 2 ^ 61" and L_hi: "L < 2 ^ 61"
  shows "GenerateAlignedExpire crc now key L =
           (let L' = max L 86400;
                e = ((now + L' - 1) sdiv L') * L' + uint (crc key) mod L'
            in if e - now < L' then e + L' else e)
         \<and> max L 86400 \<le> GenerateAlignedExpire crc now key L - now"
proof -
  have now_lo: "- 2305843009213693952 < now" and now_hi: "now < 2305843009213693952"
    and L_hi: "L < 2305843009213693952"
    using now_lo now_hi L_hi by simp_all
  define L' where "L' = max L 86400"
  define off where "off = uint (crc key) mod L'"
  define q where "q = (now + L' - 1) sdiv L' * L'"
  define e where "e = q + off"
  have L'_pos: "0 < L'" and L'_lo: "86400 \<le> L'" and L'_hi: "L' < 2305843009213693952"
    using L_hi by (simp_all add: L'_def)
  have L'_if: "(if L < 3600 * 24 then 3600 * 24 else L) = L'"
    by (simp add: L'_def max_def)
  have off_b: "0 \<le> off" "off < L'" using L'_pos by (simp_all add: off_def)
  have off_eq: "uint (crc key) smod L' = off"
    using L'_pos by (simp add: off_def smod_nonneg)
  have q_b: "now \<le> q" "q \<le> now + L' - 1 \<or> q \<le> 0"
  proof -
    show "now \<le> q"
      using sdiv_mult_bounds [OF L'_pos, of "now + L' - 1"] L'_pos
      unfolding q_def by (cases "0 \<le> now + L' - 1") linarith+
    show "q \<le> now + L' - 1 \<or> q \<le> 0"
      using sdiv_mult_bounds [OF L'_pos, of "now + L' - 1"] L'_pos
      unfolding q_def by (cases "0 \<le> now + L' - 1") linarith+
  qed
  have e_b: "now \<le> e" "e < now + 2 * L' \<or> e < L'"
    using q_b off_b unfolding e_def by linarith+
  have w1: "wrap64 (now + L') = now + L'"
    using now_lo now_hi L'_pos L'_hi by (intro wrap64_id) linarith+
  have w2: "wrap64 (now + L' - 1) = now + L' - 1"
    using now_lo now_hi L'_pos L'_hi by (intro wrap64_id) linarith+
  have w3: "wrap64 q = q"
    using q_b now_lo now_hi L'_pos L'_hi by (intro wrap64_id) linarith+
  have w4: "wrap64 (q + off) = e"
    unfolding e_def
    using q_b off_b now_lo now_hi L'_pos L'_hi by (intro wrap64_id) linarith+
  have w5: "wrap64 (e - now) = e - now"
    using e_b now_lo now_hi L'_pos L'_hi by (intro wrap64_id) linarith+
  have w6: "e - now < L' \<Longrightarrow> wrap64 (e + L') = e + L'"
    using e_b now_lo now_hi L'_pos L'_hi by (intro wrap64_id) linarith+
  have code: "GenerateAlignedExpire crc now key L = (if e - now < L' then e + L' else e)"
    unfolding GenerateAlignedExpire_def L'_if Let_def off_eq w1 w2
    using w3 w4 w5 w6 by (simp add: q_def [symmetric])
  have spec: "(let L' = max L 86400;
                e = ((now + L' - 1) sdiv L') * L' + uint (crc key) mod L'
            in if e - now < L' then e + L' else e) = (if e - now < L' then e + L' else e)"
    by (simp add: Let_def L'_def [symmetric] q_def [symmetric] off_def [symmetric] e_def [symmetric])
  have ge: "L' \<le> (if e - now < L' then e + L' else e) - now"
    using e_b by auto
  show ?thesis unfolding spec using code ge by (simp add: L'_def [symmetric])
qed

theorem GenerateAlignedExpire_in_range_witness:
  "GenerateAlignedExpire (\<lambda>_. 12345) 1700000000 ''production/cover.png'' 604800 = 1700709945
   \<and> 604800 \<le> GenerateAlignedExpire (\<lambda>_. 12345) 1700000000 ''production/cover.png'' 604800
                 - 1700000000"
  using GenerateAlignedExpire_in_range
          [of 1700000000 604800 "\<lambda>_. 12345" "''production/cover.png''"]
  by (simp add: Let_def sdiv_pos)

text \<open>
  The claim as stated, for every lifetime: at the largest \<^verbatim>\<open>int64\<close> lifetime the sum
  \<^verbatim>\<open>now+expiresSeconds-1\<close> wraps around, the function returns \<open>2^63 - 1\<close>, and the
  returned expiry is less than \<open>L'\<close> seconds after \<open>now\<close>.
\<close>

theorem GenerateAlignedExpire_overflow_counterexample:
  "\<not> (max 9223372036854775807 86400
        \<le> GenerateAlignedExpire (\<lambda>_. 0) 1700000000 [] 9223372036854775807 - 1700000000)"
  by code_simp

section \<open>The hot cache of the disk store\<close>

lemma mset_range_order: "mset (range_order picks xs) = mset xs"
proof (induction picks xs rule: range_order.induct)
  case (3 p picks x xs)
  let ?r = "range_order picks xs"
  let ?i = "p mod (length ?r + 1)"
  have "mset (take ?i ?r) + mset (drop ?i ?r) = mset ?r"
    by (metis append_take_drop_id mset_append)
  then show ?case using 3 by (simp add: Let_def)
qed simp_all

lemma set_range_order: "set (range_order picks xs) = set xs"
  by (metis mset_range_order set_mset_mset)

lemma distinct_range_order:
  "distinct (map fst xs) \<Longrightarrow> distinct (map fst (range_order picks xs))"
proof -
  have "mset (map fst (range_order picks xs)) = mset (map fst xs)"
    by (simp add: mset_range_order)
  then show "distinct (map fst xs) \<Longrightarrow> distinct (map fst (range_order picks xs))"
    by (metis mset_eq_imp_distinct_iff)
qed

lemma cached_bytes_delete:
  "distinct (map fst al) \<Longrightarrow> map_of al k = Some v \<Longrightarrow>
   cached_bytes (AList.delete k al) + length v = cached_bytes al"
proof (induction al)
  case Nil
  then show ?case by simp
next
  case (Cons p al)
  show ?case
  proof (cases "fst p = k")
    case True
    then have "k \<notin> fst ` set al" using Cons.prems(1) by auto
    then have "AList.delete k al = al" by (rule AList.delete_id)
    moreover have "snd p = v" using True Cons.prems(2) by (cases p) simp
    ultimately show ?thesis using True by (simp add: cached_bytes_def)
  next
    case False
    then have "map_of al k = Some v" using Cons.prems(2) by (cases p) (simp split: if_splits)
    then have "cached_bytes (AList.delete k al) + length v = cached_bytes al"
      using Cons.IH Cons.prems(1) by simp
    then show ?thesis using False by (simp add: cached_bytes_def)
  qed
qed

lemma cached_bytes_update_new:
  "map_of al k = None \<Longrightarrow> cached_bytes (AList.update k v al) = cached_bytes al + length v"
  by (induction al) (auto simp: cached_bytes_def split: if_splits)

lemma accounted_uncache:
  assumes "accounted d" and "map_of (cache d) key = Some val"
  shows "accounted (uncacheWithLock key (length val) d)"
    and "cacheSize (uncacheWithLock key (length val) d) + length val = cacheSize d"
proof -
  have d: "distinct (map fst (cache d))" and s: "cacheSize d = cached_bytes (cache d)"
    and m: "cacheSize d \<le> CacheSizeMax d"
    using assms(1) by (simp_all add: accounted_def)
  have e: "cached_bytes (AList.delete key (cache d)) + length val = cached_bytes (cache d)"
    using cached_bytes_delete [OF d assms(2)] .
  have e': "cached_bytes (cache d) - length val = cached_bytes (AList.delete key (cache d))"
    using e by arith
  show "accounted (uncacheWithLock key (length val) d)"
    using d s m e' by (simp add: accounted_def uncacheWithLock_def AList.distinct_delete)
  show "cacheSize (uncacheWithLock key (length val) d) + length val = cacheSize d"
    using s e by (simp add: uncacheWithLock_def)
qed

lemma accounted_bust: "accounted d \<Longrightarrow> accounted (bustCacheWithLock key d)"
  by (auto simp: bustCacheWithLock_def accounted_uncache split: option.splits)

lemma CacheSizeMax_uncache [simp]: "CacheSizeMax (uncacheWithLock key sz d) = CacheSizeMax d"
  by (simp add: uncacheWithLock_def)

lemma cache_uncache [simp]: "cache (uncacheWithLock key sz d) = AList.delete key (cache d)"
  by (simp add: uncacheWithLock_def)

lemma evict_loop_accounted:
  assumes "accounted d" and "distinct (map fst es)" and "set es \<subseteq> set (cache d)"
  shows "accounted (evict_loop es valueSize d)
         \<and> CacheSizeMax (evict_loop es valueSize d) = CacheSizeMax d
         \<and> (safe (evict_loop es valueSize d) valueSize
            \<or> set (cache (evict_loop es valueSize d)) \<subseteq> set (cache d) - set es)"
  using assms
proof (induction es valueSize d rule: evict_loop.induct)
  case (1 valueSize d)
  then show ?case by simp
next
  case (2 key val rest valueSize d)
  show ?case
  proof (cases "safe d valueSize")
    case True
    then show ?thesis using "2.prems" by simp
  next
    case False
    let ?d = "uncacheWithLock key (length val) d"
    have dist: "distinct (map fst (cache d))" using "2.prems"(1) by (simp add: accounted_def)
    have mem: "(key, val) \<in> set (cache d)" using "2.prems"(3) by simp
    then have look: "map_of (cache d) key = Some val" using dist by simp
    have acc: "accounted ?d" using accounted_uncache(1) [OF "2.prems"(1) look] .
    have cache_d: "set (cache ?d) = set (cache d) - {key} \<times> UNIV"
      by (auto simp: AList.delete_eq)
    have key_rest: "key \<notin> fst ` set rest" using "2.prems"(2) by auto
    have sub: "set rest \<subseteq> set (cache ?d)"
      using "2.prems"(3) key_rest unfolding cache_d by force
    have IH: "accounted (evict_loop rest valueSize ?d)
         \<and> CacheSizeMax (evict_loop rest valueSize ?d) = CacheSizeMax ?d
         \<and> (safe (evict_loop rest valueSize ?d) valueSize
            \<or> set (cache (evict_loop rest valueSize ?d)) \<subseteq> set (cache ?d) - set rest)"
      using "2.IH" [OF False acc _ sub] "2.prems"(2) by simp
    have "set (cache ?d) - set rest \<subseteq> set (cache d) - set ((key, val) # rest)"
      unfolding cache_d by auto
    then show ?thesis using IH False by auto
  qed
qed

lemma evict_loop_subset: "set (cache (evict_loop es valueSize d)) \<subseteq> set (cache d)"
proof (induction es valueSize d rule: evict_loop.induct)
  case (2 key val rest valueSize d)
  have "set (cache (uncacheWithLock key (length val) d)) \<subseteq> set (cache d)"
    by (auto simp: AList.delete_eq)
  then show ?case using 2 by auto
qed simp

lemma evict_loop_fields:
  "BasePath (evict_loop es valueSize d) = BasePath d
   \<and> TransformFunction (evict_loop es valueSize d) = TransformFunction d"
  by (induction es valueSize d rule: evict_loop.induct) (auto simp: uncacheWithLock_def)

lemma ensureCacheSpaceWithLock_accounted:
  assumes acc: "accounted d"
  shows "\<exists>d'. ensureCacheSpaceWithLock picks valueSize d =
                 (if CacheSizeMax d < valueSize then Inr (Some ValueTooLarge, d) else Inr (None, d'))
              \<and> (valueSize \<le> CacheSizeMax d \<longrightarrow> safe d' valueSize)
              \<and> accounted d' \<and> CacheSizeMax d' = CacheSizeMax d
              \<and> BasePath d' = BasePath d \<and> TransformFunction d' = TransformFunction d
              \<and> set (cache d') \<subseteq> set (cache d)"
proof (cases "CacheSizeMax d < valueSize")
  case True
  then show ?thesis using acc by (intro exI [of _ d]) (simp add: ensureCacheSpaceWithLock_def)
next
  case False
  let ?es = "range_order picks (cache d)"
  let ?d = "evict_loop ?es valueSize d"
  have dist: "distinct (map fst (cache d))" using acc by (simp add: accounted_def)
  have L: "accounted ?d \<and> CacheSizeMax ?d = CacheSizeMax d
         \<and> (safe ?d valueSize \<or> set (cache ?d) \<subseteq> set (cache d) - set ?es)"
    by (rule evict_loop_accounted [OF acc distinct_range_order [OF dist]])
       (simp add: set_range_order)
  have safe: "safe ?d valueSize"
  proof (rule ccontr)
    assume ns: "\<not> safe ?d valueSize"
    then have "set (cache ?d) \<subseteq> set (cache d) - set ?es" using L by blast
    then have "cache ?d = []" by (simp add: set_range_order)
    then have "cacheSize ?d = 0" using L by (simp add: accounted_def cached_bytes_def)
    then show False using ns False L by (simp add: safe_def)
  qed
  have fields: "BasePath ?d = BasePath d \<and> TransformFunction ?d = TransformFunction d"
    by (rule evict_loop_fields)
  show ?thesis
    using False L safe fields evict_loop_subset [of ?es valueSize d]
    by (intro exI [of _ ?d]) (simp add: ensureCacheSpaceWithLock_def Let_def)
qed

lemma cacheWithLock_accounted:
  assumes acc: "accounted d" and fresh: "map_of (cache d) key = None"
  shows "\<exists>err d'. cacheWithLock picks key val d = Inr (err, d')
              \<and> accounted d' \<and> CacheSizeMax d' = CacheSizeMax d
              \<and> BasePath d' = BasePath d \<and> TransformFunction d' = TransformFunction d"
proof -
  obtain d1 where
    ens: "ensureCacheSpaceWithLock picks (length val) d =
            (if CacheSizeMax d < length val then Inr (Some ValueTooLarge, d) else Inr (None, d1))"
    and safe: "length val \<le> CacheSizeMax d \<longrightarrow> safe d1 (length val)"
    and acc1: "accounted d1" and max1: "CacheSizeMax d1 = CacheSizeMax d"
    and fields1: "BasePath d1 = BasePath d" "TransformFunction d1 = TransformFunction d"
    and sub: "set (cache d1) \<subseteq> set (cache d)"
    using ensureCacheSpaceWithLock_accounted [OF acc, of picks "length val"] by blast
  show ?thesis
  proof (cases "CacheSizeMax d < length val")
    case True
    then show ?thesis using ens acc by (simp add: cacheWithLock_def)
  next
    case False
    let ?d = "d1\<lparr>cache := AList.update key val (cache d1),
                   cacheSize := cacheSize d1 + length val\<rparr>"
    have fits: "cacheSize d1 + length val \<le> CacheSizeMax d1"
      using False safe by (simp add: safe_def)
    have "key \<notin> fst ` set (cache d)" using fresh by (simp add: map_of_eq_None_iff)
    then have "key \<notin> fst ` set (cache d1)" using sub by auto
    then have fresh1: "map_of (cache d1) key = None" by (simp add: map_of_eq_None_iff)
    have "accounted ?d"
      using acc1 fits cached_bytes_update_new [OF fresh1, of val]
      by (simp add: accounted_def AList.distinct_update)
    moreover have "cacheWithLock picks key val d = Inr (None, ?d)"
      using False ens fits by (simp add: cacheWithLock_def)
    ultimately show ?thesis using max1 fields1 by simp
  qed
qed

lemma cacheWithLock_too_large:
  "CacheSizeMax d < length val \<Longrightarrow> cacheWithLock picks key val d = Inr (Some ValueTooLarge, d)"
  by (simp add: cacheWithLock_def ensureCacheSpaceWithLock_def)

lemma bust_fields [simp]:
  "CacheSizeMax (bustCacheWithLock key d) = CacheSizeMax d"
  "BasePath (bustCacheWithLock key d) = BasePath d"
  "TransformFunction (bustCacheWithLock key d) = TransformFunction d"
  by (simp_all add: bustCacheWithLock_def uncacheWithLock_def split: option.splits)

lemma well_formed_bust: "well_formed d \<Longrightarrow> well_formed (bustCacheWithLock key d)"
  by (simp add: well_formed_def accounted_bust)

lemma run_steps_append:
  "run_steps (xs @ ys) s = (case run_steps xs s of Inl p \<Rightarrow> Inl p | Inr s' \<Rightarrow> run_steps ys s')"
  by (induction xs arbitrary: s) (auto split: sum.splits)

text \<open>One goroutine alone: the accounting is exact.\<close>

lemma steps_of_well_formed:
  assumes wf: "well_formed d"
  shows "case run_steps (steps_of x) (d, []) of
           Inl p \<Rightarrow> p = CorruptDirstate
         | Inr (d', siphons) \<Rightarrow>
             well_formed d' \<and> CacheSizeMax d' = CacheSizeMax d \<and> siphons = []"
proof (cases x)
  case (OpRead key oenv denv picks)
  have acc: "accounted d" using wf by (simp add: well_formed_def)
  show ?thesis
  proof (cases "ReadStream key oenv d = Inr (Siphon key)")
    case False
    then have "(case ReadStream key oenv d of Inr (Siphon k) \<Rightarrow> [] @ [k] | _ \<Rightarrow> []) = []"
      by (auto simp: ReadStream_def readWithRLock_def split: option.splits open_env.splits if_splits)
    then show ?thesis using wf OpRead by (cases denv) simp_all
  next
    case True
    then have miss: "map_of (cache d) key = None"
      by (auto simp: ReadStream_def split: option.splits)
    show ?thesis
    proof (cases denv)
      case (ReadFails got)
      then show ?thesis using wf OpRead True by simp
    next
      case (ReadEOF content close_ok)
      obtain err d' where c: "cacheWithLock picks key content d = Inr (err, d')"
        and d': "accounted d'" "CacheSizeMax d' = CacheSizeMax d"
          "BasePath d' = BasePath d" "TransformFunction d' = TransformFunction d"
        using cacheWithLock_accounted [OF acc miss, of picks content] by blast
      show ?thesis using wf OpRead True ReadEOF c d'
        by (simp add: siphon_EOF_def cacheWithoutLock_def well_formed_def)
    qed
  qed
next
  case (OpWriteStream key r sync env)
  then show ?thesis using wf well_formed_bust [OF wf, of key]
    by (cases env) (simp_all add: WriteStream_def)
next
  case (OpErase key env)
  then show ?thesis using well_formed_bust [OF wf, of key]
    by (cases env) (auto simp: Erase_def Let_def well_formed_def split: option.splits)
next
  case (OpEraseAll removed)
  then show ?thesis using wf
    by (simp add: EraseAll_def well_formed_def accounted_def cached_bytes_def)
next
  case (OpHas key is_file)
  then show ?thesis using wf by (simp add: Has_def split: option.splits)
qed

lemma run_ops_well_formed:
  "well_formed d \<Longrightarrow>
   (case run_ops ops d of
      Inl p \<Rightarrow> p = CorruptDirstate
    | Inr (d', siphons) \<Rightarrow>
        well_formed d' \<and> CacheSizeMax d' = CacheSizeMax d \<and> siphons = [])"
proof (induction ops arbitrary: d)
  case Nil
  then show ?case by (simp add: run_ops_def)
next
  case (Cons x ops)
  show ?case
  proof (cases "run_steps (steps_of x) (d, [])")
    case (Inl p)
    then show ?thesis using steps_of_well_formed [OF Cons.prems, of x]
      by (simp add: run_ops_def run_steps_append)
  next
    case (Inr s1)
    obtain d1 sp where s1: "s1 = (d1, sp)" by (cases s1)
    have "well_formed d1" and m: "CacheSizeMax d1 = CacheSizeMax d" and e: "sp = []"
      using steps_of_well_formed [OF Cons.prems, of x] Inr s1 by simp_all
    then show ?thesis using Cons.IH [of d1] Inr s1
      by (auto simp: run_ops_def run_steps_append split: sum.splits)
  qed
qed

lemma well_formed_New: "well_formed (New opts)"
  by (simp add: well_formed_def accounted_def New_def cached_bytes_def split: option.splits)

lemma values_le_cached_bytes:
  "list_all (\<lambda>kv. length (snd kv) \<le> cached_bytes al + n) al"
proof (induction al arbitrary: n)
  case Nil
  then show ?case by simp
next
  case (Cons p al)
  have "list_all (\<lambda>kv. length (snd kv) \<le> cached_bytes al + (length (snd p) + n)) al"
    by (rule Cons.IH)
  then show ?case by (simp add: cached_bytes_def add.assoc add.left_commute)
qed

lemma accounted_values_fit:
  assumes "accounted d"
  shows "list_all (\<lambda>kv. length (snd kv) \<le> CacheSizeMax d) (cache d)"
proof -
  have "list_all (\<lambda>kv. length (snd kv) \<le> cached_bytes (cache d) + 0) (cache d)"
    by (rule values_le_cached_bytes)
  moreover have "cached_bytes (cache d) \<le> CacheSizeMax d"
    using assms by (simp add: accounted_def)
  ultimately show ?thesis by (auto simp: list_all_iff)
qed

text \<open>Any run: the counter never falls below the bytes held, nor rises above the maximum.\<close>

lemma cached_bytes_update_le:
  "cached_bytes (AList.update k v al) \<le> cached_bytes al + length v"
  by (induction al) (auto simp: cached_bytes_def)

lemma bounded_uncache:
  assumes "bounded d" and "map_of (cache d) key = Some val"
  shows "bounded (uncacheWithLock key (length val) d)"
proof -
  have d: "distinct (map fst (cache d))" using assms(1) by (simp add: bounded_def)
  have e: "cached_bytes (AList.delete key (cache d)) + length val = cached_bytes (cache d)"
    using cached_bytes_delete [OF d assms(2)] .
  have "cached_bytes (AList.delete key (cache d)) \<le> cacheSize d - length val"
    using assms(1) e by (simp add: bounded_def) arith
  moreover have "cacheSize d - length val \<le> CacheSizeMax d"
    using assms(1) by (simp add: bounded_def) arith
  ultimately show ?thesis
    using assms(1) by (simp add: bounded_def uncacheWithLock_def AList.distinct_delete)
qed

lemma evict_loop_bounded:
  assumes "bounded d" and "distinct (map fst es)" and "set es \<subseteq> set (cache d)"
  shows "bounded (evict_loop es valueSize d)
         \<and> CacheSizeMax (evict_loop es valueSize d) = CacheSizeMax d"
  using assms
proof (induction es valueSize d rule: evict_loop.induct)
  case (1 valueSize d)
  then show ?case by simp
next
  case (2 key val rest valueSize d)
  show ?case
  proof (cases "safe d valueSize")
    case True
    then show ?thesis using "2.prems" by simp
  next
    case False
    let ?d = "uncacheWithLock key (length val) d"
    have dist: "distinct (map fst (cache d))" using "2.prems"(1) by (simp add: bounded_def)
    have mem: "(key, val) \<in> set (cache d)" using "2.prems"(3) by simp
    then have look: "map_of (cache d) key = Some val" using dist by simp
    have b: "bounded ?d" using bounded_uncache [OF "2.prems"(1) look] .
    have cache_d: "set (cache ?d) = set (cache d) - {key} \<times> UNIV"
      by (auto simp: AList.delete_eq)
    have key_rest: "key \<notin> fst ` set rest" using "2.prems"(2) by auto
    have sub: "set rest \<subseteq> set (cache ?d)"
      using "2.prems"(3) key_rest unfolding cache_d by force
    have "bounded (evict_loop rest valueSize ?d)
         \<and> CacheSizeMax (evict_loop rest valueSize ?d) = CacheSizeMax ?d"
      using "2.IH" [OF False b _ sub] "2.prems"(2) by simp
    then show ?thesis using False by simp
  qed
qed

lemma cacheWithLock_bounded:
  assumes b: "bounded d"
  shows "case cacheWithLock picks key val d of
           Inl p \<Rightarrow> p = StillWontFit
         | Inr (err, d') \<Rightarrow> bounded d' \<and> CacheSizeMax d' = CacheSizeMax d"
proof (cases "CacheSizeMax d < length val")
  case True
  then show ?thesis using b by (simp add: cacheWithLock_too_large)
next
  case False
  let ?d = "evict_loop (range_order picks (cache d)) (length val) d"
  have dist: "distinct (map fst (cache d))" using b by (simp add: bounded_def)
  have L: "bounded ?d \<and> CacheSizeMax ?d = CacheSizeMax d"
    by (rule evict_loop_bounded [OF b distinct_range_order [OF dist]])
       (simp add: set_range_order)
  show ?thesis
  proof (cases "safe ?d (length val)")
    case ns: False
    then show ?thesis using False
      by (simp add: cacheWithLock_def ensureCacheSpaceWithLock_def Let_def)
  next
    case s: True
    let ?d' = "?d\<lparr>cache := AList.update key val (cache ?d),
                    cacheSize := cacheSize ?d + length val\<rparr>"
    have fits: "cacheSize ?d + length val \<le> CacheSizeMax ?d" using s by (simp add: safe_def)
    have "cached_bytes (AList.update key val (cache ?d)) \<le> cached_bytes (cache ?d) + length val"
      by (rule cached_bytes_update_le)
    then have "bounded ?d'"
      using L fits by (simp add: bounded_def AList.distinct_update)
    moreover have "cacheWithLock picks key val d = Inr (None, ?d')"
      using False s fits by (simp add: cacheWithLock_def ensureCacheSpaceWithLock_def Let_def)
    ultimately show ?thesis using L by simp
  qed
qed

lemma bounded_bust: "bounded d \<Longrightarrow> bounded (bustCacheWithLock key d)"
proof (cases "map_of (cache d) key")
  case None
  then show "bounded d \<Longrightarrow> bounded (bustCacheWithLock key d)"
    by (simp add: bustCacheWithLock_def)
next
  case (Some val)
  then show "bounded d \<Longrightarrow> bounded (bustCacheWithLock key d)"
    using bounded_uncache [of d key val] by (simp add: bustCacheWithLock_def)
qed

lemma exec_step_bounded:
  assumes b: "bounded d"
  shows "case exec_step x (d, siphons) of
           Inl p \<Rightarrow> p = StillWontFit \<or> p = CorruptDirstate
         | Inr (d', siphons') \<Rightarrow> bounded d' \<and> CacheSizeMax d' = CacheSizeMax d"
proof (cases x)
  case (StepReadStream key env)
  then show ?thesis using b by simp
next
  case (StepSiphonEOF n buf picks)
  show ?thesis
    using cacheWithLock_bounded [OF b, of picks "siphons ! n" buf] b StepSiphonEOF
    by (auto simp: siphon_EOF_def cacheWithoutLock_def split: sum.splits prod.splits)
next
  case (StepSiphonDropped n)
  then show ?thesis using b by simp
next
  case (StepWriteStream key r sync env)
  then show ?thesis using b bounded_bust [OF b, of key]
    by (cases env) (simp_all add: WriteStream_def)
next
  case (StepErase key env)
  then show ?thesis using bounded_bust [OF b, of key]
    by (cases env) (auto simp: Erase_def Let_def bounded_def split: option.splits)
next
  case (StepEraseAll removed)
  then show ?thesis using b
    by (simp add: EraseAll_def bounded_def cached_bytes_def)
next
  case (StepHas key is_file)
  then show ?thesis using b by (simp add: Has_def split: option.splits)
qed

lemma run_steps_bounded:
  "bounded d \<Longrightarrow>
   (case run_steps steps (d, siphons) of
      Inl p \<Rightarrow> p = StillWontFit \<or> p = CorruptDirstate
    | Inr (d', siphons') \<Rightarrow> bounded d' \<and> CacheSizeMax d' = CacheSizeMax d)"
proof (induction steps arbitrary: d siphons)
  case Nil
  then show ?case by simp
next
  case (Cons x steps)
  show ?case
  proof (cases "exec_step x (d, siphons)")
    case (Inl p)
    then show ?thesis using exec_step_bounded [OF Cons.prems, of x siphons] by simp
  next
    case (Inr s1)
    obtain d1 sp where s1: "s1 = (d1, sp)" by (cases s1)
    have "bounded d1" and m: "CacheSizeMax d1 = CacheSizeMax d"
      using exec_step_bounded [OF Cons.prems, of x siphons] Inr s1 by simp_all
    then show ?thesis using Cons.IH [of d1 sp] Inr s1 by (auto split: sum.splits)
  qed
qed

lemma bounded_New: "bounded (New opts)"
  by (simp add: bounded_def New_def cached_bytes_def split: option.splits)

text \<open>
  The accounting of the hot cache, in two parts. One goroutine alone, running whole
  operations on a store made by \<open>New\<close>: \<open>cacheSize\<close> is the sum of the lengths of the
  cached values and at most \<open>CacheSizeMax\<close>, and the run never ends in one of the two
  overflow panics. Any interleaving of the critical sections: \<open>cacheSize\<close> is at least
  that sum and at most \<open>CacheSizeMax\<close>, and \<open>FailedToMakeRoom\<close> is never reached.
\<close>

lemma Diskv_accounting_alone:
  "case run_ops ops (New opts) of
      Inl p \<Rightarrow> p \<noteq> FailedToMakeRoom \<and> p \<noteq> StillWontFit
    | Inr (d, siphons) \<Rightarrow>
        cacheSize d = cached_bytes (cache d) \<and> cacheSize d \<le> CacheSizeMax d
        \<and> list_all (\<lambda>kv. length (snd kv) \<le> CacheSizeMax d) (cache d)"
proof (cases "run_ops ops (New opts)")
  case (Inl p)
  then have "p = CorruptDirstate"
    using run_ops_well_formed [where ops = ops and d = "New opts", OF well_formed_New]
    by simp
  then show ?thesis using Inl by simp
next
  case (Inr s)
  obtain d sp where s: "s = (d, sp)" by (cases s)
  have "well_formed d"
    using run_ops_well_formed [where ops = ops and d = "New opts", OF well_formed_New] Inr s
    by simp
  then have acc: "accounted d" by (simp add: well_formed_def)
  then show ?thesis using Inr s accounted_values_fit [OF acc] by (simp add: accounted_def)
qed

lemma Diskv_accounting_interleaved:
  "case run_steps steps (New opts, []) of
      Inl p \<Rightarrow> p = StillWontFit \<or> p = CorruptDirstate
    | Inr (d, siphons) \<Rightarrow>
        cached_bytes (cache d) \<le> cacheSize d \<and> cacheSize d \<le> CacheSizeMax d"
  using run_steps_bounded [where steps = steps and siphons = "[]", OF bounded_New [of opts]]
  by (auto simp: bounded_def split: sum.splits)

text \<open>
  Claim C10. Two goroutines read the key \<^verbatim>\<open>k\<close>, which is not cached and whose file holds
  two bytes, on a store with room for four: both \<^verbatim>\<open>ReadStream\<close> calls find the key missing
  before either siphon meets the end of the file. Each siphon then publishes the two bytes,
  and \<open>cacheWithLock\<close> adds the length to \<open>cacheSize\<close> without taking the entry that is
  already there off: the map holds two bytes and \<open>cacheSize\<close> is four. A later read of a
  file of three bytes, which fit, empties the map and still ends in the panic of
  \<open>ensureCacheSpaceWithLock\<close>. The same reads one after the other keep the count exact.
\<close>

theorem Diskv_overlapping_reads_double_count:
  "observe (run_steps
      [StepReadStream ''k'' Opened, StepReadStream ''k'' Opened,
       StepSiphonEOF 0 [1, 2] [], StepSiphonEOF 0 [1, 2] []] (demo_store, []))
     = Inr ([(''k'', [1, 2])], 4, 2)
   \<and> observe (run_steps
      [StepReadStream ''k'' Opened, StepReadStream ''k'' Opened,
       StepSiphonEOF 0 [1, 2] [], StepSiphonEOF 0 [1, 2] [],
       StepReadStream ''j'' Opened, StepSiphonEOF 0 [3, 4, 5] []] (demo_store, []))
     = Inl StillWontFit
   \<and> observe (run_ops
      [OpRead ''k'' Opened (ReadEOF [1, 2] True) [], OpRead ''k'' Opened (ReadEOF [1, 2] True) [],
       OpRead ''j'' Opened (ReadEOF [3, 4, 5] True) []] demo_store)
     = Inr ([(''j'', [3, 4, 5])], 3, 3)"
  by code_simp

section \<open>Printing and parsing the options\<close>

lemma is_digit_char_of: "0 \<le> k \<Longrightarrow> k < 10 \<Longrightarrow> is_digit (char_of (48 + k :: int))"
  by (simp add: is_digit_def)

lemma of_char_digit: "0 \<le> k \<Longrightarrow> k < 10 \<Longrightarrow> (of_char (char_of (48 + k :: int)) :: int) = 48 + k"
  by simp

lemma decimal_digits:
  "0 \<le> n \<Longrightarrow> decimal n \<noteq> [] \<and> list_all is_digit (decimal n) \<and> digits_value (decimal n) = n"
proof (induction n rule: decimal.induct)
  case (1 n)
  show ?case
  proof (cases "n < 10")
    case True
    then show ?thesis using "1.prems"
      by (subst (1 2 3) decimal.simps) (simp add: is_digit_char_of of_char_digit digits_value_def)
  next
    case False
    then have IH: "decimal (n div 10) \<noteq> [] \<and> list_all is_digit (decimal (n div 10))
                   \<and> digits_value (decimal (n div 10)) = n div 10"
      using "1.IH" "1.prems" by simp
    have m: "0 \<le> n mod 10" "n mod 10 < 10" by simp_all
    show ?thesis using False IH m
      by (subst (1 2 3) decimal.simps)
         (simp add: is_digit_char_of of_char_digit [OF m] digits_value_def)
  qed
qed

lemma hd_decimal_digit: "0 \<le> n \<Longrightarrow> is_digit (hd (decimal n))"
  using decimal_digits [of n] by (cases "decimal n") simp_all

lemma not_digit_signs [simp]: "\<not> is_digit CHR ''-''" "\<not> is_digit CHR ''+''"
  by (simp_all add: is_digit_def)

lemma Atoi_fmt_d: "Atoi (fmt_d w) = (w, True)"
proof (cases "sint w < 0")
  case True
  let ?n = "- sint w"
  have n: "0 \<le> ?n" using True by simp
  have hi: "?n \<le> 9223372036854775808"
    using sint_ge [of w] by simp
  note d = decimal_digits [OF n]
  have "(of_int (- ?n) :: 64 word) = w" by simp
  then show ?thesis using True d hi
    by (simp add: Atoi_def fmt_d_def Let_def)
next
  case False
  let ?n = "sint w"
  have n: "0 \<le> ?n" using False by simp
  have hi: "?n < 9223372036854775808" using sint_lt [of w] by simp
  note d = decimal_digits [OF n]
  have h: "hd (decimal ?n) \<noteq> CHR ''-''" "hd (decimal ?n) \<noteq> CHR ''+''"
    using hd_decimal_digit [OF n] by auto
  show ?thesis using False d hi h
    by (simp add: Atoi_def fmt_d_def Let_def)
qed

lemma Split1_not_Nil [simp]: "Split1 sep s \<noteq> []"
  by (induction s) (auto split: list.splits)

lemma Split1_single: "sep \<notin> set t \<Longrightarrow> Split1 sep t = [t]"
  by (induction t) auto

lemma Split1_append_sep:
  "sep \<notin> set t \<Longrightarrow> Split1 sep (t @ sep # rest) = t # Split1 sep rest"
  by (induction t) (auto split: list.splits)

lemma Split1_joined:
  "sep \<notin> set t \<Longrightarrow> list_all (\<lambda>u. sep \<notin> set u) ts \<Longrightarrow>
   Split1 sep (t @ concat (map ((#) sep) ts)) = t # ts"
proof (induction ts arbitrary: t)
  case Nil
  then show ?case by (simp add: Split1_single)
next
  case (Cons u ts)
  then show ?case by (simp add: Split1_append_sep)
qed

lemma SplitN2_at_first:
  "sep \<notin> set a \<Longrightarrow> SplitN2 sep (a @ sep # b) = [a, b]"
  by (induction a) (auto simp: SplitN2_def)

lemma parse_option_fit [simp]: "parse_option PF opts ''fit'' = opts\<lparr>Fit := True\<rparr>"
  by (simp add: parse_option_def optFit_def)

lemma parse_option_fv [simp]: "parse_option PF opts ''fv'' = opts\<lparr>FlipVertical := True\<rparr>"
  by (simp add: parse_option_def optFit_def optFlipVertical_def)

lemma parse_option_fh [simp]: "parse_option PF opts ''fh'' = opts\<lparr>FlipHorizontal := True\<rparr>"
  by (simp add: parse_option_def optFit_def optFlipVertical_def optFlipHorizontal_def)

lemma parse_option_rotate [simp]:
  "parse_option PF opts (CHR ''r'' # fmt_d r) = opts\<lparr>Rotate := r\<rparr>"
  by (simp add: parse_option_def optFit_def optFlipVertical_def optFlipHorizontal_def
                optRotatePrefix_def HasPrefix_def TrimPrefix_def Atoi_fmt_d)

lemma parse_option_quality [simp]:
  "parse_option PF opts (CHR ''q'' # fmt_d q) = opts\<lparr>Quality := q\<rparr>"
  by (simp add: parse_option_def optFit_def optFlipVertical_def optFlipHorizontal_def
                optRotatePrefix_def optQualityPrefix_def HasPrefix_def TrimPrefix_def Atoi_fmt_d)

lemma parse_option_format:
  "f \<notin> {''it'', ''v'', ''h''} \<Longrightarrow>
   parse_option PF opts (CHR ''f'' # f) = opts\<lparr>Format := f\<rparr>"
  by (simp add: parse_option_def optFit_def optFlipVertical_def optFlipHorizontal_def
                optRotatePrefix_def optQualityPrefix_def optFormatPrefix_def
                HasPrefix_def TrimPrefix_def)

lemma parse_option_size:
  assumes W: "text_roundtrip fmt PF w" and H: "text_roundtrip fmt PF h"
  shows "parse_option PF opts (fmt w @ CHR ''x'' # fmt h) = opts\<lparr>Width := w, Height := h\<rparr>"
proof -
  let ?t = "fmt w @ CHR ''x'' # fmt h"
  obtain c cs where fw: "fmt w = c # cs" using W by (cases "fmt w") (simp_all add: text_roundtrip_def)
  have c: "c \<noteq> CHR ''r''" "c \<noteq> CHR ''q''" "c \<noteq> CHR ''f''"
    using W fw by (auto simp: text_roundtrip_def)
  have nox: "CHR ''x'' \<notin> set (fmt w)" using W by (simp add: text_roundtrip_def)
  have pw: "PF (fmt w) = (w, True)" and ph: "PF (fmt h) = (h, True)" and hne: "fmt h \<noteq> []"
    using W H by (simp_all add: text_roundtrip_def)
  have split: "SplitN2 CHR ''x'' ?t = [fmt w, fmt h]" using nox by (rule SplitN2_at_first)
  have "parse_option PF opts ?t = parse_size PF CHR ''x'' opts ?t"
    using c by (simp add: fw parse_option_def optFit_def optFlipVertical_def optFlipHorizontal_def
                  optRotatePrefix_def optQualityPrefix_def optFormatPrefix_def HasPrefix_def
                  optSizeDelimiter_def)
  also have "\<dots> = opts\<lparr>Width := w, Height := h\<rparr>"
    unfolding parse_size_def split using pw ph hne fw by (simp add: Let_def)
  finally show ?thesis .
qed

lemma String_flag_tokens:
  "String fmt opt =
     (let result = (fmt (Width opt) @ CHR ''x'' # fmt (Height opt))
                   @ concat (map ((#) CHR '','') (flag_tokens opt))
      in if result = ''0x0'' then [] else result)"
  by (simp add: String_def flag_tokens_def optFit_def optFlipVertical_def optFlipHorizontal_def
                optRotatePrefix_def optQualityPrefix_def optFormatPrefix_def
                optSizeDelimiter_def Let_def)

lemma comma_not_digit: "is_digit c \<Longrightarrow> c \<noteq> CHR '',''"
  by (auto simp: is_digit_def)

lemma comma_notin_decimal: "0 \<le> n \<Longrightarrow> CHR '','' \<notin> set (decimal n)"
  using decimal_digits [of n] comma_not_digit by (auto simp: list_all_iff)

lemma comma_notin_fmt_d: "CHR '','' \<notin> set (fmt_d w)"
  by (simp add: fmt_d_def comma_notin_decimal)

lemma flag_tokens_no_comma:
  "CHR '','' \<notin> set (Format opt) \<Longrightarrow> list_all (\<lambda>u. CHR '','' \<notin> set u) (flag_tokens opt)"
  by (simp add: flag_tokens_def comma_notin_fmt_d)

lemma foldl_flag_tokens:
  assumes "Format opt \<notin> {''it'', ''v'', ''h''}"
  shows "foldl (parse_option PF)
           (emptyOptions\<lparr>Width := Width opt, Height := Height opt\<rparr>) (flag_tokens opt) = opt"
proof -
  have f: "parse_option PF opts (CHR ''f'' # Format opt) = opts\<lparr>Format := Format opt\<rparr>" for opts
    using assms by (rule parse_option_format)
  show ?thesis
    by (rule Options.equality) (simp_all add: flag_tokens_def emptyOptions_def f)
qed

lemma zero_by_zero:
  assumes "(a @ CHR ''x'' # b) @ concat (map ((#) CHR '','') ts) = ''0x0''"
    and "CHR ''x'' \<notin> set a"
  shows "a = ''0'' \<and> b = ''0'' \<and> ts = []"
proof -
  have ts: "ts = []"
  proof (cases ts)
    case (Cons t ts')
    then have "CHR '','' \<in> set ((a @ CHR ''x'' # b) @ concat (map ((#) CHR '','') ts))" by simp
    then show ?thesis unfolding assms(1) by simp
  qed simp
  then have e: "a @ CHR ''x'' # b = ''0x0''" using assms(1) by simp
  show ?thesis
  proof (cases a)
    case Nil
    then show ?thesis using e by simp
  next
    case (Cons c a')
    then show ?thesis using e assms(2) ts by (cases a') auto
  qed
qed

lemma flag_tokens_Nil:
  "flag_tokens opt = [] \<longleftrightarrow>
     \<not> Fit opt \<and> Rotate opt = 0 \<and> \<not> FlipVertical opt \<and> \<not> FlipHorizontal opt
     \<and> Quality opt = 0 \<and> Format opt = []"
  by (auto simp: flag_tokens_def)

lemma ParseOptions_empty: "ParseOptions PF [] False = emptyOptions"
  by (simp add: ParseOptions_def parse_option_def)

text \<open>
  Claim C1, amended. For every \<open>Options\<close> whose \<open>Format\<close> has no comma and is not "it",
  "v" or "h" (the empty format and the five supported formats are such), and whose width
  and height are not NaN, so that \<^verbatim>\<open>%v\<close> prints them as a text that \<^verbatim>\<open>ParseFloat\<close> reads
  back: \<open>ParseOptions (String o) False\<close> is \<open>o\<close> again. \<open>String\<close> of the all-zero options
  is the empty string, and \<open>String\<close> never returns "0x0".
\<close>

theorem Options_roundtrip:
  assumes W: "text_roundtrip fmt PF (Width opt)" and H: "text_roundtrip fmt PF (Height opt)"
    and zero: "fmt (Finite 0) = ''0''" "PF ''0'' = (Finite 0, True)"
    and nan: "Width opt \<noteq> NaN" "Height opt \<noteq> NaN"
    and comma: "CHR '','' \<notin> set (Format opt)"
    and format: "Format opt \<notin> {''it'', ''v'', ''h''}"
  shows "ParseOptions PF (String fmt opt) False = opt
       \<and> Options_equal (ParseOptions PF (String fmt opt) False) opt
       \<and> String fmt emptyOptions = []
       \<and> String fmt opt \<noteq> ''0x0''"
proof -
  let ?size = "fmt (Width opt) @ CHR ''x'' # fmt (Height opt)"
  let ?result = "?size @ concat (map ((#) CHR '','') (flag_tokens opt))"
  have nox: "CHR ''x'' \<notin> set (fmt (Width opt))" using W by (simp add: text_roundtrip_def)
  have noc: "CHR '','' \<notin> set ?size" using W H by (simp add: text_roundtrip_def)
  have rt: "ParseOptions PF (String fmt opt) False = opt"
  proof (cases "?result = ''0x0''")
    case True
    have z: "fmt (Width opt) = ''0''" "fmt (Height opt) = ''0''" "flag_tokens opt = []"
      using zero_by_zero [OF True nox] by simp_all
    have "Width opt = Finite 0" "Height opt = Finite 0"
      using W H z zero(2) by (simp_all add: text_roundtrip_def)
    then have "opt = emptyOptions"
      using z(3) by (intro Options.equality) (simp_all add: flag_tokens_Nil emptyOptions_def)
    moreover have "String fmt opt = []" using True by (simp add: String_flag_tokens)
    ultimately show ?thesis by (simp add: ParseOptions_empty)
  next
    case False
    then have s: "String fmt opt = ?result" by (simp add: String_flag_tokens)
    have "Split1 CHR '','' ?result = ?size # flag_tokens opt"
      using noc flag_tokens_no_comma [OF comma] by (rule Split1_joined)
    then have "foldl (parse_option PF) emptyOptions (Split1 CHR '','' ?result)
               = foldl (parse_option PF)
                   (emptyOptions\<lparr>Width := Width opt, Height := Height opt\<rparr>) (flag_tokens opt)"
      by (simp add: parse_option_size [OF W H])
    then show ?thesis by (simp add: ParseOptions_def s foldl_flag_tokens [OF format])
  qed
  have "f64_eq x x" if "x \<noteq> NaN" for x using that by (simp add: f64_eq_def)
  then have eq: "Options_equal opt opt" using nan by (simp add: Options_equal_def)
  have e: "String fmt emptyOptions = []"
    using zero(1) by (simp add: String_flag_tokens flag_tokens_def emptyOptions_def)
  have n: "String fmt opt \<noteq> ''0x0''" by (simp add: String_def Let_def)
  show ?thesis using rt eq e n by simp
qed

lemma Options_roundtrip_example:
  "text_roundtrip small_fmt_v small_ParseFloat (Finite 1)"
  "text_roundtrip small_fmt_v small_ParseFloat (Finite 2)"
  "small_fmt_v (Finite 0) = ''0''"
  "small_ParseFloat ''0'' = (Finite 0, True)"
  "String small_fmt_v
     \<lparr>Width = Finite 1, Height = Finite 2, Fit = True, Rotate = 90, FlipVertical = True,
      FlipHorizontal = True, Quality = 80, Format = []\<rparr> = ''1x2,fit,r90,fv,fh,q80''"
  by code_simp+

theorem Options_roundtrip_witness:
  "String small_fmt_v
     \<lparr>Width = Finite 1, Height = Finite 2, Fit = True, Rotate = 90, FlipVertical = True,
      FlipHorizontal = True, Quality = 80, Format = []\<rparr> = ''1x2,fit,r90,fv,fh,q80''
   \<and> ParseOptions small_ParseFloat ''1x2,fit,r90,fv,fh,q80'' False
       = \<lparr>Width = Finite 1, Height = Finite 2, Fit = True, Rotate = 90, FlipVertical = True,
          FlipHorizontal = True, Quality = 80, Format = []\<rparr>
   \<and> String small_fmt_v emptyOptions = []"
  using Options_roundtrip
          [of small_fmt_v small_ParseFloat
              "\<lparr>Width = Finite 1, Height = Finite 2, Fit = True, Rotate = 90,
                FlipVertical = True, FlipHorizontal = True, Quality = 80, Format = []\<rparr>"]
        Options_roundtrip_example
  by simp

text \<open>
  The claim as stated, for every \<open>Options\<close> value: the options with the format "it" and
  nothing else print as "0x0,fit", which reads back as the options with \<open>Fit\<close> set and no
  format.
\<close>

theorem Options_roundtrip_counterexample:
  "String small_fmt_v (emptyOptions\<lparr>Format := ''it''\<rparr>) = ''0x0,fit''
   \<and> \<not> Options_equal (ParseOptions small_ParseFloat ''0x0,fit'' False)
                      (emptyOptions\<lparr>Format := ''it''\<rparr>)"
  by code_simp

section \<open>Resizing and re-encoding\<close>

text \<open>Bounds on the rounded values of \<^verbatim>\<open>resizeParams\<close>.\<close>

lemma rounding_bounds:
  assumes "binary64_rounding f" and "1 / 2 ^ 100 \<le> x" and "x \<le> 2 ^ 100"
  shows "x * (1 - 1 / 2 ^ 53) \<le> f x" and "f x \<le> x * (1 + 1 / 2 ^ 53)"
  using assms unfolding binary64_rounding_def by blast+

lemma rounding_crude:
  assumes "binary64_rounding f" and "1 / 2 ^ 100 \<le> x" and "x \<le> 2 ^ 100"
  shows "x / 2 \<le> f x" and "f x \<le> 2 * x"
proof -
  have "(0::rat) \<le> 1 / 2 ^ 100" by simp
  then have pos: "0 \<le> x" using assms(2) by linarith
  have "x / 2 \<le> x * (1 - 1 / 2 ^ 53)" using pos by (simp add: field_simps)
  then show "x / 2 \<le> f x" using rounding_bounds(1) [OF assms] by linarith
  have "x * (1 + 1 / 2 ^ 53) \<le> 2 * x" using pos by (simp add: field_simps)
  then show "f x \<le> 2 * x" using rounding_bounds(2) [OF assms] by linarith
qed

lemma of_int_in_range:
  assumes "1 \<le> (n::int)" and "n < 9223372036854775808"
  shows "1 / 2 ^ 100 \<le> (of_int n :: rat)" and "(of_int n :: rat) \<le> 2 ^ 100"
proof -
  have 1: "(1::rat) \<le> of_int n" using assms(1) by simp
  have "(1::rat) / 2 ^ 100 \<le> 1" by simp
  then show "1 / 2 ^ 100 \<le> (of_int n :: rat)" using 1 by linarith
  have "(of_int n :: rat) < 9223372036854775808" using assms(2) by simp
  moreover have "(9223372036854775808 :: rat) \<le> 2 ^ 100" by simp
  ultimately show "(of_int n :: rat) \<le> 2 ^ 100" by linarith
qed

text \<open>
  The scale of one dimension, computed in floating point from the rounded operands.
\<close>

lemma scale_bounds:
  assumes R: "binary64_rounding f"
    and I: "1 \<le> (I::int)" "I \<le> 2147483648" and n: "I \<le> n" "n < 9223372036854775808"
  defines "a \<equiv> f (of_int I)" and "b \<equiv> f (of_int n)"
  shows "1 / 2 ^ 70 \<le> f (a / b)" and "f (a / b) \<le> 2 ^ 34"
    and "b * f (a / b) \<le> a * (1 + 1 / 2 ^ 53)" and "0 < b" and "b \<le> 2 ^ 64"
    and "a \<le> of_int I * (1 + 1 / 2 ^ 53)" and "1 / 2 \<le> b"
proof -
  have I63: "I < 9223372036854775808" using I(2) by linarith
  have Ir: "1 / 2 ^ 100 \<le> (of_int I :: rat)" "(of_int I :: rat) \<le> 2 ^ 100"
    using of_int_in_range [OF I(1) I63] .
  have n1: "1 \<le> n" using I(1) n(1) by linarith
  have nr: "1 / 2 ^ 100 \<le> (of_int n :: rat)" "(of_int n :: rat) \<le> 2 ^ 100"
    using of_int_in_range [OF n1 n(2)] .
  have I1: "(1::rat) \<le> of_int I" using I(1) by simp
  have Iu: "(of_int I :: rat) \<le> 2147483648" using I(2) by simp
  have nl: "(1::rat) \<le> of_int n" using n1 by simp
  have nu: "(of_int n :: rat) \<le> 9223372036854775808" using n(2) by simp
  have a_lo: "1 / 2 \<le> a" using rounding_crude(1) [OF R Ir] I1 unfolding a_def by linarith
  have a_hi: "a \<le> 2 ^ 32" using rounding_crude(2) [OF R Ir] Iu unfolding a_def by simp
  show a_u: "a \<le> of_int I * (1 + 1 / 2 ^ 53)" using rounding_bounds(2) [OF R Ir] unfolding a_def .
  show b_lo: "1 / 2 \<le> b" using rounding_crude(1) [OF R nr] nl unfolding b_def by linarith
  show b_hi: "b \<le> 2 ^ 64" using rounding_crude(2) [OF R nr] nu unfolding b_def by simp
  show b_pos: "0 < b" using b_lo by linarith
  have q_lo: "1 / 2 ^ 65 \<le> a / b"
  proof -
    have "b \<le> 2 ^ 65 * a" using a_lo b_hi by simp
    then have "b / 2 ^ 65 \<le> a" by (simp add: field_simps)
    then show ?thesis using b_pos by (simp add: field_simps)
  qed
  have q_hi: "a / b \<le> 2 ^ 33"
  proof -
    have "a \<le> 2 ^ 33 * b" using a_hi b_lo by simp
    then show ?thesis using b_pos by (simp add: field_simps)
  qed
  have qr: "1 / 2 ^ 100 \<le> a / b" "a / b \<le> 2 ^ 100"
  proof -
    have "(1::rat) / 2 ^ 100 \<le> 1 / 2 ^ 65" by simp
    then show "1 / 2 ^ 100 \<le> a / b" using q_lo by linarith
    have "(2::rat) ^ 33 \<le> 2 ^ 100" by simp
    then show "a / b \<le> 2 ^ 100" using q_hi by linarith
  qed
  show "1 / 2 ^ 70 \<le> f (a / b)"
    using rounding_crude(1) [OF R qr] q_lo by simp
  show "f (a / b) \<le> 2 ^ 34" using rounding_crude(2) [OF R qr] q_hi by simp
  have h: "f (a / b) \<le> a / b * (1 + 1 / 2 ^ 53)" using rounding_bounds(2) [OF R qr] .
  have "b * f (a / b) \<le> b * (a / b * (1 + 1 / 2 ^ 53))"
    using mult_left_mono [OF h less_imp_le [OF b_pos]] .
  moreover have "b * (a / b * (1 + 1 / 2 ^ 53)) = a * (1 + 1 / 2 ^ 53)"
    using b_pos by simp
  ultimately show "b * f (a / b) \<le> a * (1 + 1 / 2 ^ 53)" by simp
qed

lemma scaled_dim:
  assumes R: "binary64_rounding f"
    and I: "1 \<le> (I::int)" "I \<le> 2147483648" and n: "I \<le> n" "n < 9223372036854775808"
    and ms: "1 / 2 ^ 70 \<le> ms" "ms \<le> f (f (of_int I) / f (of_int n))"
  shows "0 \<le> f (f (of_int n) * ms)" and "f (f (of_int n) * ms) < of_int I + 1"
proof -
  define a where "a = f (of_int I)"
  define b where "b = f (of_int n)"
  define u :: rat where "u = 1 + 1 / 2 ^ 53"
  note sb = scale_bounds [OF R I n, folded a_def b_def u_def]
  have b_pos: "0 < b" and b_lo: "1 / 2 \<le> b" and b_hi: "b \<le> 2 ^ 64" using sb by simp_all
  have u_pos: "0 \<le> u" by (simp add: u_def)
  have I1: "(1::rat) \<le> of_int I" using I(1) by simp
  have Iu: "(of_int I :: rat) \<le> 2147483648" using I(2) by simp
  have ms': "ms \<le> f (a / b)" using ms(2) by (simp add: a_def b_def)
  have p1: "b * ms \<le> b * f (a / b)" using mult_left_mono [OF ms' less_imp_le [OF b_pos]] .
  have p2: "b * ms \<le> a * u" using p1 sb(3) by linarith
  have p3: "a * u \<le> of_int I * u * u" using mult_right_mono [OF sb(6) u_pos] by simp
  have uu: "u * u \<le> 2" by (simp add: u_def field_simps)
  have "of_int I * (u * u) \<le> of_int I * 2"
    using mult_left_mono [OF uu, of "of_int I"] I1 by simp
  then have p4: "b * ms \<le> 4294967296" using p2 p3 Iu by (simp add: mult.assoc)
  have "1 / 2 * (1 / 2 ^ 70) \<le> b * ms"
    using mult_mono [OF b_lo ms(1)] b_pos by simp
  then have p5: "1 / 2 ^ 71 \<le> b * ms" by simp
  have r: "1 / 2 ^ 100 \<le> b * ms" "b * ms \<le> 2 ^ 100"
  proof -
    have "(1::rat) / 2 ^ 100 \<le> 1 / 2 ^ 71" by simp
    then show "1 / 2 ^ 100 \<le> b * ms" using p5 by linarith
    have "(4294967296::rat) \<le> 2 ^ 100" by simp
    then show "b * ms \<le> 2 ^ 100" using p4 by linarith
  qed
  have "(0::rat) \<le> 1 / 2 ^ 71" by simp
  then have "0 \<le> b * ms" using p5 by linarith
  then show "0 \<le> f (b * ms)" using rounding_crude(1) [OF R r] by linarith
  have "f (b * ms) \<le> b * ms * u" using rounding_bounds(2) [OF R r] by (simp add: u_def)
  moreover have "b * ms * u \<le> of_int I * u * u * u"
    using mult_right_mono [OF _ u_pos, of "b * ms" "of_int I * u * u"] p2 p3 by linarith
  moreover have "of_int I * u * u * u < of_int I + 1"
  proof -
    have k: "u * u * u \<le> 1 + 1 / 2 ^ 50" by (simp add: u_def field_simps)
    have "of_int I * (u * u * u) \<le> of_int I * (1 + 1 / 2 ^ 50)"
      using mult_left_mono [OF k, of "of_int I"] I1 by simp
    also have "\<dots> = of_int I + of_int I / 2 ^ 50" by (simp add: field_simps)
    also have "\<dots> < of_int I + 1" using Iu by simp
    finally show ?thesis by (simp add: mult.assoc)
  qed
  ultimately show "f (b * ms) < of_int I + 1" by linarith
qed

lemma f64_to_int_bounded:
  assumes "0 \<le> x" and "x < of_int I + 1" and "I \<le> 2147483648"
  shows "f64_to_int F (Finite x) = \<lfloor>x\<rfloor>" and "0 \<le> \<lfloor>x\<rfloor>" and "\<lfloor>x\<rfloor> \<le> I"
proof -
  show lo: "0 \<le> \<lfloor>x\<rfloor>" using assms(1) by simp
  have "x < of_int (I + 1)" using assms(2) by simp
  then have "\<lfloor>x\<rfloor> < I + 1" by (simp only: floor_less_iff)
  then show hi: "\<lfloor>x\<rfloor> \<le> I" by simp
  have t: "go_trunc x = \<lfloor>x\<rfloor>" using assms(1) by (simp add: go_trunc_def)
  have "(2::int) ^ 63 = 9223372036854775808" by simp
  then have "- (2 ^ 63) \<le> \<lfloor>x\<rfloor>" "\<lfloor>x\<rfloor> < 2 ^ 63" using lo hi assms(3) by linarith+
  then show "f64_to_int F (Finite x) = \<lfloor>x\<rfloor>" by (simp add: f64_to_int_def t)
qed

lemma resizeParams_within_source:
  assumes R: "binary64_rounding (fl F)" and nofit: "\<not> Fit opt"
    and IW: "1 \<le> Dx b" "Dx b \<le> 2147483648" and IH: "1 \<le> Dy b" "Dy b \<le> 2147483648"
    and W: "Dx b \<le> percent_or_pixels F (Dx b) (Width opt)"
           "percent_or_pixels F (Dx b) (Width opt) < 9223372036854775808"
    and H: "Dy b \<le> percent_or_pixels F (Dy b) (Height opt)"
           "percent_or_pixels F (Dy b) (Height opt) < 9223372036854775808"
  shows "case resizeParams F b opt of (w, h, resize) \<Rightarrow>
            0 \<le> w \<and> w \<le> Dx b \<and> 0 \<le> h \<and> h \<le> Dy b"
    and "percent_or_pixels F (Dx b) (Width opt) = Dx b
         \<and> percent_or_pixels F (Dy b) (Height opt) = Dy b
         \<longrightarrow> resizeParams F b opt = (0, 0, False)"
proof -
  define w0 where "w0 = percent_or_pixels F (Dx b) (Width opt)"
  define h0 where "h0 = percent_or_pixels F (Dy b) (Height opt)"
  define sx where "sx = fl F (fl F (of_int (Dx b)) / fl F (of_int w0))"
  define sy where "sy = fl F (fl F (of_int (Dy b)) / fl F (of_int h0))"
  define ms where "ms = min sx sy"
  define W' where "W' = fl F (fl F (of_int w0) * ms)"
  define H' where "H' = fl F (fl F (of_int h0) * ms)"
  have W: "Dx b \<le> w0" "w0 < 9223372036854775808" and H: "Dy b \<le> h0" "h0 < 9223372036854775808"
    using W H by (simp_all add: w0_def h0_def)
  have ms_lo: "1 / 2 ^ 70 \<le> ms"
    using scale_bounds(1) [OF R IW W] scale_bounds(1) [OF R IH H]
    by (simp add: ms_def sx_def sy_def)
  have ms_x: "ms \<le> fl F (fl F (of_int (Dx b)) / fl F (of_int w0))"
    and ms_y: "ms \<le> fl F (fl F (of_int (Dy b)) / fl F (of_int h0))"
    by (simp_all add: ms_def sx_def sy_def)
  note Wb = scaled_dim [OF R IW W ms_lo ms_x, folded W'_def]
  note Hb = scaled_dim [OF R IH H ms_lo ms_y, folded H'_def]
  note Wi = f64_to_int_bounded [OF Wb IW(2)]
  note Hi = f64_to_int_bounded [OF Hb IH(2)]
  have unfold: "resizeParams F b opt =
     (let (w, h) =
            (if w0 > Dx b \<or> h0 > Dy b
             then (f64_to_int F (Finite W'), f64_to_int F (Finite H'))
             else (if w0 > Dx b then Dx b else w0, if h0 > Dy b then Dy b else h0))
      in if (w = Dx b \<or> w = 0) \<and> (h = Dy b \<or> h = 0) then (0, 0, False) else (w, h, True))"
    using nofit IW(1) IH(1) W(1) H(1)
    by (simp add: resizeParams_def Let_def Dx_def Dy_def w0_def h0_def W'_def H'_def ms_def
                  sx_def sy_def)
  show "case resizeParams F b opt of (w, h, resize) \<Rightarrow>
            0 \<le> w \<and> w \<le> Dx b \<and> 0 \<le> h \<and> h \<le> Dy b"
  proof (cases "w0 > Dx b \<or> h0 > Dy b")
    case True
    then show ?thesis using Wi Hi IW(1) IH(1) unfolding unfold by (auto simp: Let_def)
  next
    case False
    then have "w0 = Dx b" "h0 = Dy b" using W(1) H(1) by simp_all
    then show ?thesis using IW(1) IH(1) unfolding unfold by simp
  qed
  show "percent_or_pixels F (Dx b) (Width opt) = Dx b
         \<and> percent_or_pixels F (Dy b) (Height opt) = Dy b
         \<longrightarrow> resizeParams F b opt = (0, 0, False)"
    unfolding unfold w0_def [symmetric] h0_def [symmetric] by simp
qed

lemma scale_lower:
  assumes R: "binary64_rounding f"
    and I: "1 \<le> (I::int)" "I \<le> 2147483648" and n: "I \<le> n" "n < 9223372036854775808"
  defines "a \<equiv> f (of_int I)" and "b \<equiv> f (of_int n)"
  shows "a * (1 - 1 / 2 ^ 53) \<le> b * f (a / b)" and "of_int I * (1 - 1 / 2 ^ 53) \<le> a"
proof -
  have I63: "I < 9223372036854775808" using I(2) by linarith
  have Ir: "1 / 2 ^ 100 \<le> (of_int I :: rat)" "(of_int I :: rat) \<le> 2 ^ 100"
    using of_int_in_range [OF I(1) I63] .
  show "of_int I * (1 - 1 / 2 ^ 53) \<le> a"
    using rounding_bounds(1) [OF R Ir] unfolding a_def .
  note sb = scale_bounds [OF R I n, folded a_def b_def]
  have b_pos: "0 < b" using sb(4) .
  have q_lo: "1 / 2 ^ 70 \<le> f (a / b)" and q_hi: "f (a / b) \<le> 2 ^ 34" using sb(1,2) .
  have a_lo: "1 / 2 \<le> a" and a_hi: "a \<le> 2 ^ 32"
    using rounding_crude [OF R Ir] I unfolding a_def by simp_all
  have b_lo: "1 / 2 \<le> b" and b_hi: "b \<le> 2 ^ 64" using sb(7,5) .
  have ql: "1 / 2 ^ 65 \<le> a / b"
  proof -
    have "b \<le> 2 ^ 65 * a" using a_lo b_hi by simp
    then have "b / 2 ^ 65 \<le> a" by (simp add: field_simps)
    then show ?thesis using b_pos by (simp add: field_simps)
  qed
  have qh: "a / b \<le> 2 ^ 33"
  proof -
    have "a \<le> 2 ^ 33 * b" using a_hi b_lo by simp
    then show ?thesis using b_pos by (simp add: field_simps)
  qed
  have qr: "1 / 2 ^ 100 \<le> a / b" "a / b \<le> 2 ^ 100"
  proof -
    have "(1::rat) / 2 ^ 100 \<le> 1 / 2 ^ 65" by simp
    then show "1 / 2 ^ 100 \<le> a / b" using ql by linarith
    have "(2::rat) ^ 33 \<le> 2 ^ 100" by simp
    then show "a / b \<le> 2 ^ 100" using qh by linarith
  qed
  have h: "a / b * (1 - 1 / 2 ^ 53) \<le> f (a / b)" using rounding_bounds(1) [OF R qr] .
  have "b * (a / b * (1 - 1 / 2 ^ 53)) \<le> b * f (a / b)"
    using mult_left_mono [OF h less_imp_le [OF b_pos]] .
  moreover have "b * (a / b * (1 - 1 / 2 ^ 53)) = a * (1 - 1 / 2 ^ 53)"
    using b_pos by simp
  ultimately show "a * (1 - 1 / 2 ^ 53) \<le> b * f (a / b)" by simp
qed

lemma scaled_dim_touches:
  assumes R: "binary64_rounding f"
    and I: "1 \<le> (I::int)" "I \<le> 2147483648" and n: "I \<le> n" "n < 9223372036854775808"
  shows "of_int I - 1 < f (f (of_int n) * f (f (of_int I) / f (of_int n)))"
proof -
  define a where "a = f (of_int I)"
  define b where "b = f (of_int n)"
  define ms where "ms = f (a / b)"
  define v :: rat where "v = 1 - 1 / 2 ^ 53"
  note sb = scale_bounds [OF R I n, folded a_def b_def]
  note sl = scale_lower [OF R I n, folded a_def b_def v_def ms_def]
  have b_pos: "0 < b" and b_lo: "1 / 2 \<le> b" using sb by simp_all
  have v_pos: "0 \<le> v" by (simp add: v_def)
  have I1: "(1::rat) \<le> of_int I" using I(1) by simp
  have Iu: "(of_int I :: rat) \<le> 2147483648" using I(2) by simp
  have ms_lo: "1 / 2 ^ 70 \<le> ms" using sb(1) by (simp add: ms_def)
  have "1 / 2 * (1 / 2 ^ 70) \<le> b * ms"
    using mult_mono [OF b_lo ms_lo] b_pos by simp
  then have p5: "1 / 2 ^ 71 \<le> b * ms" by simp
  have u: "b * ms \<le> a * (1 + 1 / 2 ^ 53)" using sb(3) by (simp add: ms_def)
  have "0 \<le> of_int I * v" using I1 v_pos by simp
  then have a_pos: "0 \<le> a" using sl(2) by linarith
  have "(1 + 1 / 2 ^ 53 :: rat) \<le> 2" by simp
  then have "a * (1 + 1 / 2 ^ 53) \<le> a * 2"
    using a_pos by (rule mult_left_mono)
  moreover have "a \<le> of_int I * 2"
  proof -
    have "of_int I * (1 + 1 / 2 ^ 53) \<le> of_int I * (2::rat)"
      using mult_left_mono [of "1 + 1 / 2 ^ 53" "2::rat" "of_int I"] I1 by simp
    then show ?thesis using sb(6) by linarith
  qed
  ultimately have p4: "b * ms \<le> 8589934592 * 2" using u Iu by linarith
  have r: "1 / 2 ^ 100 \<le> b * ms" "b * ms \<le> 2 ^ 100"
  proof -
    have "(1::rat) / 2 ^ 100 \<le> 1 / 2 ^ 71" by simp
    then show "1 / 2 ^ 100 \<le> b * ms" using p5 by linarith
    have "(8589934592 * 2 ::rat) \<le> 2 ^ 100" by simp
    then show "b * ms \<le> 2 ^ 100" using p4 by linarith
  qed
  have "b * ms * v \<le> f (b * ms)" using rounding_bounds(1) [OF R r] by (simp add: v_def)
  moreover have "a * v * v \<le> b * ms * v"
    using mult_right_mono [OF sl(1) v_pos] by (simp add: ms_def)
  moreover have "of_int I * v * v * v \<le> a * v * v"
    using mult_right_mono [OF mult_right_mono [OF sl(2) v_pos] v_pos] by simp
  moreover have "of_int I - 1 < of_int I * v * v * v"
  proof -
    have k: "1 - 1 / 2 ^ 50 \<le> v * v * v" by (simp add: v_def field_simps)
    have "of_int I * (1 - 1 / 2 ^ 50) \<le> of_int I * (v * v * v)"
      using mult_left_mono [OF k, of "of_int I"] I1 by simp
    moreover have "of_int I * (1 - 1 / 2 ^ 50) = (of_int I :: rat) - of_int I / 2 ^ 50"
      by (simp add: field_simps)
    moreover have "of_int I - of_int I / 2 ^ 50 > of_int I - (1::rat)" using Iu by simp
    ultimately show ?thesis by (simp add: mult.assoc)
  qed
  ultimately show ?thesis by (simp add: a_def b_def ms_def)
qed

lemma resizeParams_scaled:
  assumes R: "binary64_rounding (fl F)" and nofit: "\<not> Fit opt"
    and IW: "1 \<le> Dx b" "Dx b \<le> 2147483648" and IH: "1 \<le> Dy b" "Dy b \<le> 2147483648"
    and W: "Dx b \<le> percent_or_pixels F (Dx b) (Width opt)"
           "percent_or_pixels F (Dx b) (Width opt) < 9223372036854775808"
    and H: "Dy b \<le> percent_or_pixels F (Dy b) (Height opt)"
           "percent_or_pixels F (Dy b) (Height opt) < 9223372036854775808"
    and larger: "percent_or_pixels F (Dx b) (Width opt) \<noteq> Dx b
                 \<or> percent_or_pixels F (Dy b) (Height opt) \<noteq> Dy b"
  defines "w0 \<equiv> percent_or_pixels F (Dx b) (Width opt)"
    and "h0 \<equiv> percent_or_pixels F (Dy b) (Height opt)"
  defines "s \<equiv> min (fl F (fl F (of_int (Dx b)) / fl F (of_int w0)))
                      (fl F (fl F (of_int (Dy b)) / fl F (of_int h0)))"
  defines "w \<equiv> \<lfloor>fl F (fl F (of_int w0) * s)\<rfloor>" and "h \<equiv> \<lfloor>fl F (fl F (of_int h0) * s)\<rfloor>"
  shows "0 \<le> w \<and> w \<le> Dx b \<and> 0 \<le> h \<and> h \<le> Dy b" and "Dx b - 1 \<le> w \<or> Dy b - 1 \<le> h"
    and "resizeParams F b opt =
           (if (w = Dx b \<or> w = 0) \<and> (h = Dy b \<or> h = 0) then (0, 0, False) else (w, h, True))"
proof -
  define sx where "sx = fl F (fl F (of_int (Dx b)) / fl F (of_int w0))"
  define sy where "sy = fl F (fl F (of_int (Dy b)) / fl F (of_int h0))"
  define W' where "W' = fl F (fl F (of_int w0) * s)"
  define H' where "H' = fl F (fl F (of_int h0) * s)"
  have s: "s = min sx sy" by (simp add: s_def sx_def sy_def)
  have W: "Dx b \<le> w0" "w0 < 9223372036854775808" and H: "Dy b \<le> h0" "h0 < 9223372036854775808"
    using W H by (simp_all add: w0_def h0_def)
  have ms_lo: "1 / 2 ^ 70 \<le> s"
    using scale_bounds(1) [OF R IW W] scale_bounds(1) [OF R IH H]
    by (simp add: s sx_def sy_def)
  have ms_x: "s \<le> fl F (fl F (of_int (Dx b)) / fl F (of_int w0))"
    and ms_y: "s \<le> fl F (fl F (of_int (Dy b)) / fl F (of_int h0))"
    by (simp_all add: s sx_def sy_def)
  note Wb = scaled_dim [OF R IW W ms_lo ms_x, folded W'_def]
  note Hb = scaled_dim [OF R IH H ms_lo ms_y, folded H'_def]
  note Wi = f64_to_int_bounded [OF Wb IW(2)]
  note Hi = f64_to_int_bounded [OF Hb IH(2)]
  have wh: "w = \<lfloor>W'\<rfloor>" "h = \<lfloor>H'\<rfloor>" by (simp_all add: w_def h_def W'_def H'_def)
  show "0 \<le> w \<and> w \<le> Dx b \<and> 0 \<le> h \<and> h \<le> Dy b"
    using Wi(2,3) Hi(2,3) by (simp add: wh)
  show "Dx b - 1 \<le> w \<or> Dy b - 1 \<le> h"
  proof (cases "sx \<le> sy")
    case True
    then have "s = sx" by (simp add: s)
    then have "of_int (Dx b) - 1 < W'"
      using scaled_dim_touches [OF R IW W] by (simp add: W'_def sx_def)
    then have "of_int (Dx b - 1) < W'" by simp
    then have "Dx b - 1 \<le> \<lfloor>W'\<rfloor>" by (simp only: le_floor_iff less_imp_le)
    then show ?thesis by (simp add: wh)
  next
    case False
    then have "s = sy" by (simp add: s)
    then have "of_int (Dy b) - 1 < H'"
      using scaled_dim_touches [OF R IH H] by (simp add: H'_def sy_def)
    then have "of_int (Dy b - 1) < H'" by simp
    then have "Dy b - 1 \<le> \<lfloor>H'\<rfloor>" by (simp only: le_floor_iff less_imp_le)
    then show ?thesis by (simp add: wh)
  qed
  have big: "w0 > Dx b \<or> h0 > Dy b"
    using larger W(1) H(1) by (auto simp: w0_def h0_def)
  have "resizeParams F b opt =
     (let (w, h) = (f64_to_int F (Finite W'), f64_to_int F (Finite H'))
      in if (w = Dx b \<or> w = 0) \<and> (h = Dy b \<or> h = 0) then (0, 0, False) else (w, h, True))"
    using nofit IW(1) IH(1) W(1) H(1) big
    by (simp add: resizeParams_def Let_def Dx_def Dy_def w0_def h0_def W'_def H'_def s_def)
  then show "resizeParams F b opt =
           (if (w = Dx b \<or> w = 0) \<and> (h = Dy b \<or> h = 0) then (0, 0, False) else (w, h, True))"
    by (simp add: Wi(1) Hi(1) wh)
qed

text \<open>
  Claim C3, amended. With \<open>Fit\<close> false and a requested width \<open>W\<close> and height \<open>H\<close> (after
  the percentage expansion) of at least the width \<open>IW\<close> and height \<open>IH\<close> of the source,
  the size that \<open>resizeParams\<close> returns is never larger than the source. When \<open>W = IW\<close> and \<open>H = IH\<close>, \<open>resizeParams\<close> reports no
  resize and \<open>transformImage\<close> only flips and rotates. Otherwise the request is scaled by
  \<open>s = min (IW / W) (IH / H)\<close> in floating point to \<open>w = int (W * s)\<close> and
  \<open>h = int (H * s)\<close>, which lie between 0 and the source's size and reach it, up to one
  pixel, in one dimension. Nothing is resized when \<open>w\<close> is \<open>IW\<close> or 0 and \<open>h\<close> is
  \<open>IH\<close> or 0; else the source is resized to \<open>w\<close> by \<open>h\<close>, by \<^verbatim>\<open>imaging.Resize\<close> when
  one of them is 0 and by \<^verbatim>\<open>imaging.Thumbnail\<close> when not. The source is at most \<open>2^31\<close>
  pixels wide and high, the requested sizes are Go integers.
\<close>

theorem resize_never_exceeds_source:
  assumes "binary64_rounding (fl F)" and "\<not> Fit opt" and "Bounds L m = b"
    and "1 \<le> Dx b" and "Dx b \<le> 2 ^ 31" and "1 \<le> Dy b" and "Dy b \<le> 2 ^ 31"
    and "Dx b \<le> percent_or_pixels F (Dx b) (Width opt)"
    and "percent_or_pixels F (Dx b) (Width opt) < 2 ^ 63"
    and "Dy b \<le> percent_or_pixels F (Dy b) (Height opt)"
    and "percent_or_pixels F (Dy b) (Height opt) < 2 ^ 63"
  shows "(case resizeParams F b opt of (w, h, resize) \<Rightarrow>
            0 \<le> w \<and> w \<le> Dx b \<and> 0 \<le> h \<and> h \<le> Dy b)
       \<and> (let IW = Dx b; IH = Dy b;
               W = percent_or_pixels F IW (Width opt);
               H = percent_or_pixels F IH (Height opt);
               s = min (fl F (fl F (of_int IW) / fl F (of_int W)))
                       (fl F (fl F (of_int IH) / fl F (of_int H)));
               w = \<lfloor>fl F (fl F (of_int W) * s)\<rfloor>;
               h = \<lfloor>fl F (fl F (of_int H) * s)\<rfloor>
           in if W = IW \<and> H = IH
              then resizeParams F b opt = (0, 0, False)
                 \<and> transformImage L F m opt = flip_and_rotate L opt m
              else 0 \<le> w \<and> w \<le> IW \<and> 0 \<le> h \<and> h \<le> IH
                 \<and> (IW - 1 \<le> w \<or> IH - 1 \<le> h)
                 \<and> resizeParams F b opt =
                     (if (w = IW \<or> w = 0) \<and> (h = IH \<or> h = 0) then (0, 0, False)
                      else (w, h, True))
                 \<and> transformImage L F m opt =
                     flip_and_rotate L opt
                       (if (w = IW \<or> w = 0) \<and> (h = IH \<or> h = 0) then m
                        else if w = 0 \<or> h = 0 then imaging_Resize L m w h
                        else imaging_Thumbnail L m w h))"
proof -
  have n: "Dx b \<le> 2147483648" "Dy b \<le> 2147483648"
    "percent_or_pixels F (Dx b) (Width opt) < 9223372036854775808"
    "percent_or_pixels F (Dy b) (Height opt) < 9223372036854775808"
    using assms(5,7,9,11) by simp_all
  note r = resizeParams_within_source
             [OF assms(1,2,4) n(1) assms(6) n(2) assms(8) n(3) assms(10) n(4)]
  show ?thesis
  proof (cases "percent_or_pixels F (Dx b) (Width opt) = Dx b
                \<and> percent_or_pixels F (Dy b) (Height opt) = Dy b")
    case True
    then show ?thesis using r assms(3) by (simp add: transformImage_def Let_def)
  next
    case False
    then have larger: "percent_or_pixels F (Dx b) (Width opt) \<noteq> Dx b
                 \<or> percent_or_pixels F (Dy b) (Height opt) \<noteq> Dy b" by simp
    note sc = resizeParams_scaled
             [OF assms(1,2,4) n(1) assms(6) n(2) assms(8) n(3) assms(10) n(4) larger]
    show ?thesis
      using r(1) sc False assms(2,3) by (simp add: transformImage_def Let_def)
  qed
qed

lemma binary64_rounding_exact: "binary64_rounding (fl exact_arith)"
proof -
  have "x * (1 - 1 / 2 ^ 53) \<le> x \<and> x \<le> x * (1 + 1 / 2 ^ 53)" if "1 / 2 ^ 100 \<le> x" for x :: rat
  proof -
    have "(0::rat) \<le> 1 / 2 ^ 100" by simp
    then have "0 \<le> x" using that by linarith
    then show ?thesis by (simp add: field_simps)
  qed
  then show ?thesis by (simp add: binary64_rounding_def exact_arith_def)
qed

lemma percent_or_pixels_examples:
  "percent_or_pixels exact_arith 100 (Finite 200) = 200"
  "percent_or_pixels exact_arith 100 (Finite 400) = 400"
  "percent_or_pixels exact_arith 100 (Finite 100) = 100"
  by code_simp+

lemma resizeParams_examples:
  "resizeParams exact_arith (size_bounds (100, 100))
     (emptyOptions\<lparr>Width := Finite 200, Height := Finite 400\<rparr>) = (50, 100, True)"
  "transformImage size_lib exact_arith (100, 100)
     (emptyOptions\<lparr>Width := Finite 100, Height := Finite 100\<rparr>) = (100, 100)"
  "resizeParams exact_arith (size_bounds (100, 100))
     (emptyOptions\<lparr>Width := Finite 200, Height := Finite 200\<rparr>) = (0, 0, False)"
  "resizeParams exact_arith (size_bounds (100, 100))
     (emptyOptions\<lparr>Width := Finite 100, Height := Finite 100000\<rparr>) = (0, 0, False)"
  by code_simp+

theorem resize_never_exceeds_source_witness:
  "resizeParams exact_arith (size_bounds (100, 100))
     (emptyOptions\<lparr>Width := Finite 200, Height := Finite 400\<rparr>) = (50, 100, True)
   \<and> (0::int) \<le> 50 \<and> (50::int) \<le> Dx (size_bounds (100, 100))
   \<and> (0::int) \<le> 100 \<and> (100::int) \<le> Dy (size_bounds (100, 100))
   \<and> transformImage size_lib exact_arith (100, 100)
        (emptyOptions\<lparr>Width := Finite 200, Height := Finite 400\<rparr>)
      = flip_and_rotate size_lib (emptyOptions\<lparr>Width := Finite 200, Height := Finite 400\<rparr>)
          (imaging_Thumbnail size_lib (100, 100) 50 100)
   \<and> transformImage size_lib exact_arith (100, 100)
        (emptyOptions\<lparr>Width := Finite 100, Height := Finite 100\<rparr>)
      = flip_and_rotate size_lib (emptyOptions\<lparr>Width := Finite 100, Height := Finite 100\<rparr>)
          (100, 100)"
  using resize_never_exceeds_source
          [of exact_arith "emptyOptions\<lparr>Width := Finite 200, Height := Finite 400\<rparr>"
              size_lib "(100, 100)" "size_bounds (100, 100)"]
        resize_never_exceeds_source
          [of exact_arith "emptyOptions\<lparr>Width := Finite 100, Height := Finite 100\<rparr>"
              size_lib "(100, 100)" "size_bounds (100, 100)"]
        binary64_rounding_exact percent_or_pixels_examples resizeParams_examples(1)
  by (simp add: Dx_def Dy_def size_bounds_def size_lib_def emptyOptions_def exact_arith_def)

text \<open>
  The claim as stated fails on a source of 100 by 100 pixels and a request of 200 by 400
  (all the float operations involved are exact: 100/200 = 0.5, 100/400 = 0.25,
  200 * 0.25 = 50, 400 * 0.25 = 100): \<open>resizeParams\<close> answers 50 by 100, and the thumbnail
  that \<open>transformImage\<close> makes is 50 by 100, not 100 by 100.
\<close>

theorem no_upscaling_counterexample:
  "transformImage size_lib exact_arith (100, 100)
     (emptyOptions\<lparr>Width := Finite 200, Height := Finite 400\<rparr>) = (50, 100)
   \<and> Bounds size_lib
        (transformImage size_lib exact_arith (100, 100)
           (emptyOptions\<lparr>Width := Finite 200, Height := Finite 400\<rparr>))
      \<noteq> Bounds size_lib (100, 100)"
  by code_simp

text \<open>
  Claim C4. Whenever the input decodes as a GIF, whatever format the options name:
  \<open>DetectFormat\<close> encodes nothing and answers "gif"; \<open>Transform\<close> answers the input itself
  as "gif" when the options ask for no geometric change, and otherwise what the GIF frame
  loop produced, as "gif" (or the error or panic of that loop). No other format is ever
  returned.
\<close>

theorem gif_format_preserved:
  assumes "image_Decode L img = Inr (m, ''gif'')"
  shows "DetectFormat L img opt = Inr (Inr (None, ''gif''))
       \<and> Transform L F img opt =
           (if \<not> transform opt then Inr (Inr (img, ''gif''))
            else case GifProcess L img (Some (\<lambda>i. transformImage L F i opt)) of
                   Inl p \<Rightarrow> Inl p
                 | Inr (Inl err) \<Rightarrow> Inr (Inl err)
                 | Inr (Inr b) \<Rightarrow> Inr (Inr (b, ''gif'')))"
  using assms
  by (auto simp: DetectFormat_def Transform_def ImageFormatGif_def encoded_def
           split: sum.splits)

lemma gif_examples:
  "image_Decode size_lib [71, 100, 100] = Inr ((100, 100), ''gif'')"
  "transform (emptyOptions\<lparr>Width := Finite 50, Height := Finite 40, Format := ''png''\<rparr>)"
  "GifProcess size_lib [71, 100, 100]
     (Some (\<lambda>i. transformImage size_lib exact_arith i
                  (emptyOptions\<lparr>Width := Finite 50, Height := Finite 40, Format := ''png''\<rparr>)))
   = Inr (Inr [71, 50, 40])"
  by code_simp+

theorem gif_format_preserved_witness:
  "image_Decode size_lib [71, 100, 100] = Inr ((100, 100), ''gif'')
   \<and> DetectFormat size_lib [71, 100, 100]
        (emptyOptions\<lparr>Width := Finite 50, Height := Finite 40, Format := ''png''\<rparr>)
      = Inr (Inr (None, ''gif''))
   \<and> Transform size_lib exact_arith [71, 100, 100]
        (emptyOptions\<lparr>Width := Finite 50, Height := Finite 40, Format := ''png''\<rparr>)
      = Inr (Inr ([71, 50, 40], ''gif''))"
  using gif_format_preserved
          [of size_lib "[71, 100, 100]" "(100, 100)"
              "emptyOptions\<lparr>Width := Finite 50, Height := Finite 40, Format := ''png''\<rparr>"
              exact_arith]
        gif_examples
  by simp

section \<open>The normalized query of a request\<close>








lemma NewRequest_Original:
  "NewRequest U PF r base = Inr (Inr req) \<Longrightarrow> Original req = Some r"
  by (auto simp: NewRequest_def Let_def split: sum.splits prod.splits option.splits if_splits)

lemma demo_request_parts:
  "map_sum id (map_sum id (\<lambda>req. (URL req, Options req)))
     (NewRequest simple_url_lib small_ParseFloat (demo_request ''tk=abc'') (Some demo_base))
   = Inr (Inr (\<lparr>Scheme = ''http'', Host = ''awss3'', Path = ''/production/cover.png'',
                RawQuery = ''ts=1490782085'', Fragment = []\<rparr>,
               emptyOptions\<lparr>Width := Finite 150, Height := Finite 150\<rparr>))"
  by code_simp

lemma demo_request_accepted:
  "NewRequest simple_url_lib small_ParseFloat (demo_request ''tk=abc'') (Some demo_base)
   = Inr (Inr \<lparr>URL = \<lparr>Scheme = ''http'', Host = ''awss3'', Path = ''/production/cover.png'',
                       RawQuery = ''ts=1490782085'', Fragment = []\<rparr>,
               Options = emptyOptions\<lparr>Width := Finite 150, Height := Finite 150\<rparr>,
               Original = Some (demo_request ''tk=abc'')\<rparr>)"
proof (cases "NewRequest simple_url_lib small_ParseFloat (demo_request ''tk=abc'') (Some demo_base)")
  case (Inl p)
  then show ?thesis using demo_request_parts by simp
next
  case (Inr x)
  show ?thesis
  proof (cases x)
    case (Inl e)
    then show ?thesis using Inr demo_request_parts by simp
  next
    case r: (Inr req)
    have "Original req = Some (demo_request ''tk=abc'')"
      using NewRequest_Original Inr r by simp
    moreover have "URL req = \<lparr>Scheme = ''http'', Host = ''awss3'',
                              Path = ''/production/cover.png'',
                              RawQuery = ''ts=1490782085'', Fragment = []\<rparr>"
      and "Options req = emptyOptions\<lparr>Width := Finite 150, Height := Finite 150\<rparr>"
      using Inr r demo_request_parts by simp_all
    ultimately show ?thesis using Inr r by simp
  qed
qed


lemma demo_request_String:
  "Request_String simple_url_lib small_fmt_v
     \<lparr>URL = \<lparr>Scheme = ''http'', Host = ''awss3'', Path = ''/production/cover.png'',
             RawQuery = ''ts=1490782085'', Fragment = []\<rparr>,
      Options = emptyOptions\<lparr>Width := Finite 150, Height := Finite 150\<rparr>,
      Original = None\<rparr>
   = ''http://awss3/production/cover.png?ts=1490782085#150x150''"
  by code_simp


section \<open>Signing and verifying\<close>

lemma enc6_dec6: "dec6 (enc6 n) = Some (n mod 64)"
proof -
  have "list_all (\<lambda>k. dec6 (enc6 k) = Some k) [0..<64]"
    by code_simp
  then have "\<And>k. k < 64 \<Longrightarrow> dec6 (enc6 k) = Some k"
    by (simp add: list_all_iff)
  then have "dec6 (enc6 (n mod 64)) = Some (n mod 64)"
    by simp
  then show ?thesis
    by (simp add: enc6_def)
qed

lemma enc6_no_newline: "enc6 n \<noteq> CHR 0x0D \<and> enc6 n \<noteq> CHR 0x0A"
proof -
  have "list_all (\<lambda>k. enc6 k \<noteq> CHR 0x0D \<and> enc6 k \<noteq> CHR 0x0A) [0..<64]"
    by code_simp
  then have "\<And>k. k < 64 \<Longrightarrow> enc6 k \<noteq> CHR 0x0D \<and> enc6 k \<noteq> CHR 0x0A"
    by (simp add: list_all_iff)
  then have "enc6 (n mod 64) \<noteq> CHR 0x0D \<and> enc6 (n mod 64) \<noteq> CHR 0x0A"
    by simp
  then show ?thesis
    by (simp add: enc6_def)
qed

lemma EncodeToString_no_newline:
  "filter (\<lambda>c. c \<noteq> CHR 0x0D \<and> c \<noteq> CHR 0x0A) (EncodeToString bs) = EncodeToString bs"
  by (induction bs rule: EncodeToString.induct) (simp_all add: Let_def enc6_no_newline)

lemma sextets:
  fixes v :: nat
  assumes "v < 16777216"
  shows "(v div 262144) mod 64 * 262144 + (v div 4096) mod 64 * 4096
           + (v div 64) mod 64 * 64 + v mod 64 = v"
proof -
  have a: "v div 262144 < 64" using assms by simp
  have b: "v mod 262144 = (v div 4096) mod 64 * 4096 + v mod 4096"
    using mod_mult2_eq [of v 4096 64] by simp
  have c: "v mod 4096 = (v div 64) mod 64 * 64 + v mod 64"
    using mod_mult2_eq [of v 64 64] by simp
  have "v = v div 262144 * 262144 + v mod 262144" by simp
  with a b c show ?thesis by simp
qed

lemma byte_lt: "unat (a :: byte) < 256"
proof -
  have "unat a < 2 ^ LENGTH(8)" by (rule unsigned_less)
  then show ?thesis by simp
qed

lemma three_bytes:
  fixes a b c :: byte
  defines "v \<equiv> unat a * 65536 + unat b * 256 + unat c"
  shows "v < 16777216" and "(of_nat (v div 65536) :: byte) = a"
    and "(of_nat (v div 256) :: byte) = b" and "(of_nat v :: byte) = c"
proof -
  have la: "unat a < 256" and lb: "unat b < 256" and lc: "unat c < 256"
    by (rule byte_lt)+
  show "v < 16777216" using la lb lc by (simp add: v_def)
  have "v div 65536 = unat a" using lb lc by (simp add: v_def)
  then show "(of_nat (v div 65536) :: byte) = a" by simp
  have z: "(256 :: byte) = 0" by simp
  have "v div 256 = unat a * 256 + unat b" using lc by (simp add: v_def)
  then show "(of_nat (v div 256) :: byte) = b" by (simp add: z)
  have z2: "(65536 :: byte) = 0" by simp
  show "(of_nat v :: byte) = c" by (simp add: v_def z z2)
qed

lemma decode_quanta_EncodeToString: "decode_quanta (EncodeToString bs) = Some bs"
proof (induction bs rule: EncodeToString.induct)
  case (1 a b c rest)
  show ?case
    using 1 three_bytes [of a b c] sextets [of "unat a * 65536 + unat b * 256 + unat c"]
    by (simp add: Let_def enc6_dec6)
next
  case (2 a b)
  show ?case
    using three_bytes [of a b 0] sextets [of "unat a * 65536 + unat b * 256"]
    by (simp add: Let_def enc6_dec6)
next
  case (3 a)
  show ?case
    using three_bytes [of a 0 0] sextets [of "unat a * 65536"]
    by (simp add: Let_def enc6_dec6)
next
  case 4
  show ?case by simp
qed

lemma DecodeString_EncodeToString: "DecodeString (EncodeToString bs) = Some bs"
  by (simp add: DecodeString_def EncodeToString_no_newline decode_quanta_EncodeToString)

lemma Uint32_PutUint32: "Uint32 (PutUint32 v) = Inr v"
  unfolding Uint32_def PutUint32_def
  apply simp
  apply (rule bit_word_eqI)
  apply (auto simp add: bit_simps)
  subgoal for n by (cases "24 \<le> n") simp_all
  done

lemma unmask: "(ucast (t XOR m) :: 32 word) XOR ucast m = ucast (t :: 64 word)"
  by (rule bit_word_eqI) (auto simp add: bit_simps)

lemma expiry_read_back:
  assumes "0 \<le> sint t" and "sint t < 4294967296"
  shows "(ucast (ucast (t :: 64 word) :: 32 word) :: 64 word) = t"
proof -
  have "sint t < 2 ^ 64"
    using assms(2) by simp
  then have "uint t = sint t"
    using assms(1) by (simp add: uint_sint take_bit_int_eq_self)
  then have u: "0 \<le> uint t" "uint t < 2 ^ 32"
    using assms by simp_all
  have "uint (ucast (ucast t :: 32 word) :: 64 word) = take_bit 64 (take_bit 32 (uint t))"
    by (simp add: unsigned_ucast_eq unsigned_take_bit_eq)
  also have "\<dots> = uint t"
    using u by (simp add: take_bit_int_eq_self)
  finally show ?thesis
    by (rule word_uint_eqI)
qed

lemma length_PutUint32: "length (PutUint32 v) = 4"
  by (simp add: PutUint32_def)

lemma SimpleVerify_signed:
  assumes "hmac_sha256_size H"
  shows "SimpleVerify H cfg now path ts (signed_token H cfg path ts t) checkExpire
           = Inr (\<not> (checkExpire \<and> (ucast (ucast t :: 32 word) :: 64 word) <s now))"
proof -
  let ?oe = "PutUint32 (ucast (t XOR MagicNum cfg))"
  let ?mac = "SimpleToken H cfg (strip_slash path) ts (EncodeToString ?oe)"
  have len: "length ?mac = 32"
    using assms by (simp add: hmac_sha256_size_def SimpleToken_def)
  have tok: "DecodeString (signed_token H cfg path ts t) = Some (?mac @ ?oe)"
    by (simp add: signed_token_def SimpleTimeToStr_def Let_def DecodeString_EncodeToString)
  have last4: "slice_lo (?mac @ ?oe) (length (?mac @ ?oe) - 4) = Inr ?oe"
    by (simp add: slice_lo_def length_PutUint32 len)
  have front: "take (length (?mac @ ?oe) - 4) (?mac @ ?oe) = ?mac"
    by (simp add: length_PutUint32 len)
  have long: "\<not> length (?mac @ ?oe) < 5"
    by (simp add: length_PutUint32 len)
  show ?thesis
    unfolding SimpleVerify_def Let_def tok option.case if_not_P [OF long] last4 sum.case
      Uint32_PutUint32 front unmask SimpleTimeByteToStr_def
    by simp
qed

text \<open>
  Claim C6. A token made by \<open>SimpleSignUrlWithTime\<close> for an expiry time \<open>t\<close> that fits
  the four bytes of the token, \<open>0 \<le> t < 2^32\<close>, verifies against the same path and
  version exactly when the expiry is not checked or \<open>t\<close> is not before the current time:
  it is accepted for \<open>t\<close> in the future and rejected for \<open>t\<close> in the past when
  \<open>checkExpire\<close> is set.
\<close>

theorem sign_verify_roundtrip:
  assumes "hmac_sha256_size H"
    and "0 \<le> sint t" and "sint t < 4294967296"
  shows "SimpleVerify H cfg now path ts (signed_token H cfg path ts t) checkExpire
           = Inr (\<not> (checkExpire \<and> sint t < sint now))"
proof -
  have "SimpleVerify H cfg now path ts (signed_token H cfg path ts t) checkExpire
          = Inr (\<not> (checkExpire \<and> (ucast (ucast t :: 32 word) :: 64 word) <s now))"
    using assms(1) by (rule SimpleVerify_signed)
  then show ?thesis
    using expiry_read_back [OF assms(2,3)] by (simp add: word_sless_alt)
qed

lemma demo_hmac_size: "hmac_sha256_size demo_hmac"
  by (simp add: hmac_sha256_size_def demo_hmac_def)

lemma demo_times:
  "0 \<le> sint (1800000000 :: 64 word)" "sint (1800000000 :: 64 word) < 4294967296"
  "\<not> sint (1800000000 :: 64 word) < sint (1700000000 :: 64 word)"
  "0 \<le> sint (1600000000 :: 64 word)" "sint (1600000000 :: 64 word) < 4294967296"
  "sint (1600000000 :: 64 word) < sint (1700000000 :: 64 word)"
  by simp_all

theorem sign_verify_roundtrip_witness:
  "SimpleVerify demo_hmac demo_config 1700000000 ''/production/cover.png'' ''12''
     (signed_token demo_hmac demo_config ''/production/cover.png'' ''12'' 1800000000) True
     = Inr True
   \<and> SimpleVerify demo_hmac demo_config 1700000000 ''/production/cover.png'' ''12''
       (signed_token demo_hmac demo_config ''/production/cover.png'' ''12'' 1600000000) True
     = Inr False"
proof
  show "SimpleVerify demo_hmac demo_config 1700000000 ''/production/cover.png'' ''12''
     (signed_token demo_hmac demo_config ''/production/cover.png'' ''12'' 1800000000) True
     = Inr True"
    unfolding sign_verify_roundtrip [OF demo_hmac_size demo_times(1,2)]
    using demo_times(3) by simp
  show "SimpleVerify demo_hmac demo_config 1700000000 ''/production/cover.png'' ''12''
       (signed_token demo_hmac demo_config ''/production/cover.png'' ''12'' 1600000000) True
     = Inr False"
    unfolding sign_verify_roundtrip [OF demo_hmac_size demo_times(4,5)]
    using demo_times(6) by simp
qed

text \<open>
  An expiry time of \<open>2^32 + 1000\<close> seconds is after the current time 1700000000, and the
  token signed for it is rejected: the four bytes keep 1000.
\<close>

lemma demo_wrapped:
  "(1700000000 :: 64 word) <s 4294968296"
  "(ucast (ucast (4294968296 :: 64 word) :: 32 word) :: 64 word) <s 1700000000"
  by (simp_all add: word_sless_alt)

theorem sign_verify_future_rejected:
  "(1700000000 :: 64 word) <s 4294968296
   \<and> SimpleVerify demo_hmac demo_config 1700000000 ''/production/cover.png'' ''12''
       (signed_token demo_hmac demo_config ''/production/cover.png'' ''12'' 4294968296) True
     = Inr False"
  unfolding SimpleVerify_signed [OF demo_hmac_size]
  using demo_wrapped by simp

lemma SimpleSignUrlWithTime_token:
  "SimpleSignUrlWithTime H cfg path ts t =
     strip_slash path @ (if ts = [] then ''?tk='' else ''?ts='' @ ts @ ''&tk='')
       @ signed_token H cfg path ts t"
  by (simp add: SimpleSignUrlWithTime_def Let_def)

section \<open>Access control and conditional requests\<close>

lemma SimpleVerify_returns: "\<exists>ok. SimpleVerify H cfg now path ts token checkExpire = Inr ok"
  by (auto simp add: SimpleVerify_def slice_lo_def Uint32_def Let_def split: option.splits)

lemma validSignature_returns: "\<exists>ok. validSignature H cfg now U r = Inr ok"
  using SimpleVerify_returns
  by (auto simp add: validSignature_def Let_def split: option.splits prod.splits)

lemma allowed_passed:
  assumes "FileContentType (Format (Options req)) \<noteq> [] \<or> Format (Options req) = []"
    and "Referrers p = [] \<or> validReferrer U (Referrers p) (Original req) = Inr True"
    and "Whitelist p = [] \<or> validHost (Whitelist p) (URL req)"
    and "validSignature H cfg now U req = Inr signOK"
  shows "allowed H cfg now U p req = Inr (None, signOK)"
  using assms by (auto simp: allowed_def Let_def)

lemma written_without_signOK:
  "fst (writeResponseToWriter U tp resp w r signOK) = fst (writeResponseToWriter U tp resp w r b)"
  by (simp add: writeResponseToWriter_def Let_def)

text \<open>
  Claim C8. For a request that passes the checks of the format, the referrer and the host,
  \<open>allowed\<close> returns no error, and its boolean is the outcome of \<open>validSignature\<close>,
  which never panics. The response that \<open>serveImage\<close> then writes is the one of the
  origin, or 404 when the origin cannot be fetched, whatever the boolean \<open>b\<close> is taken to
  be: the signature reaches the log only.
\<close>

theorem signature_failure_non_fatal:
  assumes "FileContentType (Format (Options req)) \<noteq> [] \<or> Format (Options req) = []"
    and "Referrers p = [] \<or> validReferrer U (Referrers p) (Original req) = Inr True"
    and "Whitelist p = [] \<or> validHost (Whitelist p) (URL req)"
  shows "\<exists>signOK.
           validSignature H cfg now U req = Inr signOK
         \<and> allowed H cfg now U p req = Inr (None, signOK)
         \<and> (NewRequest U PF r (DefaultBaseURL p) = Inr (Inr req) \<longrightarrow>
              map_sum id fst (serveImage H cfg now U PF fmt_v tp client_Get p w r)
                = Inr (case client_Get (Request_String U fmt_v req) of
                         Inl err \<Rightarrow> NotFound w
                       | Inr resp \<Rightarrow> fst (writeResponseToWriter U tp resp w r b)))"
proof -
  obtain signOK where s: "validSignature H cfg now U req = Inr signOK"
    using validSignature_returns by blast
  have a: "allowed H cfg now U p req = Inr (None, signOK)"
    using assms s by (rule allowed_passed)
  have "map_sum id fst (serveImage H cfg now U PF fmt_v tp client_Get p w r)
          = Inr (case client_Get (Request_String U fmt_v req) of
                   Inl err \<Rightarrow> NotFound w
                 | Inr resp \<Rightarrow> fst (writeResponseToWriter U tp resp w r b))"
    if "NewRequest U PF r (DefaultBaseURL p) = Inr (Inr req)"
    using that a written_without_signOK [of U tp _ w r signOK b]
    by (auto simp add: serveImage_def split: sum.splits prod.splits) (metis fst_conv)
  with s a show ?thesis by blast
qed

lemma demo_accepted_checks:
  "FileContentType (Format (Options demo_accepted)) \<noteq> [] \<or> Format (Options demo_accepted) = []"
  "Referrers demo_proxy = []
     \<or> validReferrer simple_url_lib (Referrers demo_proxy) (Original demo_accepted) = Inr True"
  "Whitelist demo_proxy = [] \<or> validHost (Whitelist demo_proxy) (URL demo_accepted)"
  "validSignature demo_hmac demo_config 1700000000 simple_url_lib demo_accepted = Inr False"
  by code_simp+

lemma demo_accepted_NewRequest:
  "NewRequest simple_url_lib small_ParseFloat (demo_request ''tk=abc'') (DefaultBaseURL demo_proxy)
     = Inr (Inr demo_accepted)"
  using demo_request_accepted by (simp add: demo_accepted_def demo_proxy_def demo_base_def)

lemma demo_written:
  "w_Status (fst (writeResponseToWriter simple_url_lib (\<lambda>s. None)
                   \<lparr>StatusCode = 200, Header = Map.empty, Body = bytes_of ''image''\<rparr>
                   demo_writer (demo_request ''tk=abc'') True)) = Some 200"
  by (simp add: writeResponseToWriter_def check304_def copyHeader_def Get_def Let_def
        WriteHeader_def Write_def demo_writer_def)

theorem signature_failure_non_fatal_witness:
  "allowed demo_hmac demo_config 1700000000 simple_url_lib demo_proxy demo_accepted
     = Inr (None, False)
   \<and> map_sum id (\<lambda>written. w_Status (fst written))
       (serveImage demo_hmac demo_config 1700000000 simple_url_lib small_ParseFloat small_fmt_v
          (\<lambda>s. None) demo_client demo_proxy demo_writer (demo_request ''tk=abc''))
     = Inr (Some 200)"
proof -
  have "\<exists>signOK.
          validSignature demo_hmac demo_config 1700000000 simple_url_lib demo_accepted = Inr signOK
        \<and> allowed demo_hmac demo_config 1700000000 simple_url_lib demo_proxy demo_accepted
            = Inr (None, signOK)
        \<and> (NewRequest simple_url_lib small_ParseFloat (demo_request ''tk=abc'')
               (DefaultBaseURL demo_proxy) = Inr (Inr demo_accepted) \<longrightarrow>
             map_sum id fst
               (serveImage demo_hmac demo_config 1700000000 simple_url_lib small_ParseFloat
                  small_fmt_v (\<lambda>s. None) demo_client demo_proxy demo_writer
                  (demo_request ''tk=abc''))
               = Inr (case demo_client (Request_String simple_url_lib small_fmt_v demo_accepted) of
                        Inl err \<Rightarrow> NotFound demo_writer
                      | Inr resp \<Rightarrow>
                          fst (writeResponseToWriter simple_url_lib (\<lambda>s. None) resp demo_writer
                                 (demo_request ''tk=abc'') True)))"
    by (rule signature_failure_non_fatal [OF demo_accepted_checks(1,2,3)])
  then have a: "allowed demo_hmac demo_config 1700000000 simple_url_lib demo_proxy demo_accepted
                  = Inr (None, False)"
    and s: "map_sum id fst
               (serveImage demo_hmac demo_config 1700000000 simple_url_lib small_ParseFloat
                  small_fmt_v (\<lambda>s. None) demo_client demo_proxy demo_writer
                  (demo_request ''tk=abc''))
             = Inr (fst (writeResponseToWriter simple_url_lib (\<lambda>s. None)
                           \<lparr>StatusCode = 200, Header = Map.empty, Body = bytes_of ''image''\<rparr>
                           demo_writer (demo_request ''tk=abc'') True))"
    using demo_accepted_checks(4) demo_accepted_NewRequest
    by (auto simp add: demo_client_def)
  from s have "map_sum id (\<lambda>written. w_Status (fst written))
       (serveImage demo_hmac demo_config 1700000000 simple_url_lib small_ParseFloat small_fmt_v
          (\<lambda>s. None) demo_client demo_proxy demo_writer (demo_request ''tk=abc''))
     = Inr (Some 200)"
    using demo_written
    by (cases "serveImage demo_hmac demo_config 1700000000 simple_url_lib small_ParseFloat
                 small_fmt_v (\<lambda>s. None) demo_client demo_proxy demo_writer
                 (demo_request ''tk=abc'')") auto
  with a show ?thesis by simp
qed

lemma check304_iff:
  "check304 time_Parse req resp \<longleftrightarrow>
     (Get (Header resp) ''Etag'' \<noteq> []
        \<and> Get (Header resp) ''Etag'' = Get (req_Header req) ''If-None-Match'')
     \<or> (\<exists>lastModified ifModSince.
           time_Parse (Get (Header resp) ''Last-Modified'') = Some lastModified
         \<and> time_Parse (Get (req_Header req) ''If-Modified-Since'') = Some ifModSince
         \<and> lastModified < ifModSince)"
  by (auto simp add: check304_def Let_def Before_def split: option.splits)

text \<open>
  Claim C5. A request whose \<^verbatim>\<open>If-Modified-Since\<close> is the very \<^verbatim>\<open>Last-Modified\<close> of the
  response, with no entity tag, is not answered with 304: \<open>check304\<close> compares the two
  instants with \<^verbatim>\<open>Before\<close>, which is strict, and the handler writes the status and the body
  of the response. By the documented condition, where an \<^verbatim>\<open>If-Modified-Since\<close> greater than or equal
  to \<^verbatim>\<open>Last-Modified\<close> gives 304, this request is answered with 304 and no body.
\<close>

theorem check304_equal_dates_no_304:
  "\<not> check304 time_Parse
        \<lparr>req_URL = u, req_Header = [''If-Modified-Since'' \<mapsto> [date]]\<rparr>
        \<lparr>StatusCode = 200, Header = [''Last-Modified'' \<mapsto> [date]], Body = body\<rparr>
   \<and> fst (writeResponseToWriter U time_Parse
             \<lparr>StatusCode = 200, Header = [''Last-Modified'' \<mapsto> [date]], Body = body\<rparr>
             \<lparr>w_Header = Map.empty, w_Status = None, w_Body = []\<rparr>
             \<lparr>req_URL = u, req_Header = [''If-Modified-Since'' \<mapsto> [date]]\<rparr> signOK)
     = \<lparr>w_Header = [''Last-Modified'' \<mapsto> [date], ''Vary'' \<mapsto> [''Accept''],
                      ''Access-Control-Allow-Origin'' \<mapsto> [''*'']],
        w_Status = Some 200, w_Body = body\<rparr>"
proof -
  have c: "\<not> check304 time_Parse
        \<lparr>req_URL = u, req_Header = [''If-Modified-Since'' \<mapsto> [date]]\<rparr>
        \<lparr>StatusCode = 200, Header = [''Last-Modified'' \<mapsto> [date]], Body = body\<rparr>"
    by (simp add: check304_def Get_def Before_def Let_def split: option.splits)
  show ?thesis
    using c
    by (simp add: writeResponseToWriter_def copyHeader_def Let_def WriteHeader_def Write_def
          Header_Add_def)
qed

end
